theory Spec2Isabelle
  imports Main
begin

section \<open>The shell process as seen by the executor\<close>

text \<open>
  The executor (\<^verbatim>\<open>executor.c\<close>) and the job registry (\<^verbatim>\<open>jobs.c\<close>) run in one
  single-threaded process, the shell. Everything they touch outside their local variables
  is collected in the record \<open>world\<close>: the descriptors open in the shell process, the
  children of the shell that have not been waited for, the global table \<^verbatim>\<open>g_jobs\<close>,
  the global \<^verbatim>\<open>g_last_cmdline\<close> (declared in \<^verbatim>\<open>shell.h\<close>, which is not part of the
  sources; \<^verbatim>\<open>executor.c\<close> quotes the declaration), what was written to the two standard
  streams, and a log of the system calls whose arguments matter to the contracts.

  Whether \<^verbatim>\<open>fork\<close>, \<^verbatim>\<open>pipe\<close>, \<^verbatim>\<open>open\<close> and \<^verbatim>\<open>malloc\<close> succeed is decided by the
  environment. Each of them has an outcome function indexed by the number of calls made
  so far, so that every run of the code is the run of the model for some outcome functions.
\<close>

datatype pstate = Running | Zombie
  \<comment> \<open>a child that still runs, and a child that has exited or was killed by a signal and
      has not been waited for yet; a process id that is no child of the shell (never was,
      or was reaped already) has no entry in the process table\<close>

datatype oflag = O_RDONLY | O_WRONLY_CREAT_TRUNC

record job_t =
  job_pid :: int
  job_active :: bool      \<comment> \<open>\<^verbatim>\<open>int active\<close>, only ever assigned 0 and 1\<close>
  job_cmdline :: string   \<comment> \<open>\<^verbatim>\<open>char cmdline[256]\<close>, the text before the terminating NUL\<close>

record child =
  c_pid :: int
  c_in :: int             \<comment> \<open>descriptor the child duplicates onto its standard input (0: inherited)\<close>
  c_out :: int            \<comment> \<open>descriptor the child duplicates onto its standard output (1: inherited)\<close>
  c_prog :: string        \<comment> \<open>first argument of \<^verbatim>\<open>execvp\<close>\<close>
  c_argv :: "string list" \<comment> \<open>second argument of \<^verbatim>\<open>execvp\<close>\<close>

record world =
  fds :: "int list"                       \<comment> \<open>descriptors open in the shell process\<close>
  procs :: "int \<Rightarrow> pstate option"          \<comment> \<open>children of the shell not waited for\<close>
  g_jobs :: "job_t list"                  \<comment> \<open>\<^verbatim>\<open>job_t g_jobs[MAX_JOBS]\<close>\<close>
  g_last_cmdline :: string                \<comment> \<open>\<^verbatim>\<open>extern char g_last_cmdline[256]\<close>\<close>
  stdout :: "string list"                 \<comment> \<open>one entry for each \<^verbatim>\<open>printf\<close>\<close>
  stderr :: "string list"                 \<comment> \<open>one entry for each diagnostic\<close>
  spawned :: "child list"                 \<comment> \<open>what each successful \<^verbatim>\<open>fork\<close> created\<close>
  waited :: "int list"                    \<comment> \<open>arguments of the blocking \<^verbatim>\<open>waitpid\<close> calls\<close>
  probed :: "int list"                    \<comment> \<open>arguments of the \<^verbatim>\<open>WNOHANG\<close> calls\<close>
  open_calls :: "(string \<times> oflag) list"    \<comment> \<open>arguments of the \<^verbatim>\<open>open\<close> calls\<close>
  nfork :: nat
  fork_ret :: "nat \<Rightarrow> nat option"          \<comment> \<open>\<open>None\<close>: fork fails; \<open>Some k\<close>: the child is \<open>k + 1\<close>\<close>
  npipe :: nat
  pipe_ok :: "nat \<Rightarrow> bool"
  nopen :: nat
  open_ok :: "nat \<Rightarrow> bool"
  nmalloc :: nat
  malloc_ok :: "nat \<Rightarrow> bool"
  heap_junk :: "nat \<Rightarrow> int"               \<comment> \<open>contents of a fresh \<^verbatim>\<open>malloc\<close> block of ints\<close>

definition MAX_JOBS :: nat where
  "MAX_JOBS = 64"

definition CMDLINE_SIZE :: nat where
  "CMDLINE_SIZE = 256"

definition EXIT_SUCCESS :: int where
  "EXIT_SUCCESS = 0"

definition EXIT_FAILURE :: int where
  "EXIT_FAILURE = 1"

definition STDIN_FILENO :: int where
  "STDIN_FILENO = 0"

definition STDOUT_FILENO :: int where
  "STDOUT_FILENO = 1"

subsection \<open>System calls\<close>

text \<open>
  A new descriptor is the lowest number that is not open (POSIX). The search starts at
  \<open>n\<close> and ends because each step leaves one open descriptor behind.
\<close>

function first_free :: "int \<Rightarrow> int list \<Rightarrow> int" where
  "first_free n fs = (if n \<in> set fs then first_free (n + 1) fs else n)"
  by pat_completeness auto
termination
proof (relation "measure (\<lambda>(n, fs). length (filter (\<lambda>x. n \<le> x) fs))")
  show "wf (measure (\<lambda>(n, fs). length (filter (\<lambda>x. n \<le> x) fs)))"
    by simp
next
  fix n :: int and fs :: "int list"
  assume m: "n \<in> set fs"
  have e: "filter (\<lambda>x. n + 1 \<le> x) fs = filter (\<lambda>x. n + 1 \<le> x) (filter (\<lambda>x. n \<le> x) fs)"
    by (simp add: conj_commute) (rule filter_cong, auto)
  have "length (filter (\<lambda>x. n + 1 \<le> x) (filter (\<lambda>x. n \<le> x) fs))
          < length (filter (\<lambda>x. n \<le> x) fs)"
    by (rule length_filter_less [of n]) (use m in auto)
  with e show "((n + 1, fs), (n, fs)) \<in> measure (\<lambda>(n, fs). length (filter (\<lambda>x. n \<le> x) fs))"
    by simp
qed

declare first_free.simps [simp del]

definition close_fd :: "int \<Rightarrow> world \<Rightarrow> world" where
  \<comment> \<open>\<^verbatim>\<open>close(fd)\<close>; on a descriptor that is not open it fails with EBADF and changes nothing\<close>
  "close_fd fd w = w\<lparr>fds := removeAll fd (fds w)\<rparr>"

definition openf :: "string \<Rightarrow> oflag \<Rightarrow> world \<Rightarrow> int \<times> world" where
  \<comment> \<open>\<^verbatim>\<open>open(path, flags)\<close>: the new descriptor, or -1\<close>
  "openf path fl w =
     (let w1 = w\<lparr>nopen := Suc (nopen w), open_calls := open_calls w @ [(path, fl)]\<rparr>
      in if open_ok w (nopen w)
         then (let fd = first_free 0 (fds w) in (fd, w1\<lparr>fds := fds w @ [fd]\<rparr>))
         else (- 1, w1))"

definition pipef :: "world \<Rightarrow> (int \<times> int) option \<times> world" where
  \<comment> \<open>\<^verbatim>\<open>pipe(p)\<close>: \<open>Some (p[0], p[1])\<close>, the read end and the write end, or \<open>None\<close> for -1\<close>
  "pipef w =
     (let w1 = w\<lparr>npipe := Suc (npipe w)\<rparr>
      in if pipe_ok w (npipe w)
         then (let r = first_free 0 (fds w); wr = first_free 0 (fds w @ [r])
               in (Some (r, wr), w1\<lparr>fds := fds w @ [r, wr]\<rparr>))
         else (None, w1))"

definition malloc :: "world \<Rightarrow> bool \<times> world" where
  \<comment> \<open>whether the block was allocated\<close>
  "malloc w = (malloc_ok w (nmalloc w), w\<lparr>nmalloc := Suc (nmalloc w)\<rparr>)"

definition fork :: "int \<Rightarrow> int \<Rightarrow> string \<Rightarrow> string list \<Rightarrow> world \<Rightarrow> int \<times> world" where
  \<comment> \<open>\<^verbatim>\<open>fork()\<close> as it returns in the shell: -1, or the child's process id, which is
      positive. The arguments say what the branch \<^verbatim>\<open>pid == 0\<close> of the caller makes of
      the child: the descriptors it puts on its standard streams and the program it
      executes. The child closes descriptors in its own copy of the descriptor table only.\<close>
  "fork i out prog argv w =
     (case fork_ret w (nfork w) of
        None \<Rightarrow> (- 1, w\<lparr>nfork := Suc (nfork w)\<rparr>)
      | Some k \<Rightarrow>
          (let p = int (Suc k)
           in (p, w\<lparr>nfork := Suc (nfork w),
                    procs := (procs w)(p \<mapsto> Running),
                    spawned := spawned w @
                      [\<lparr>c_pid = p, c_in = i, c_out = out, c_prog = prog, c_argv = argv\<rparr>]\<rparr>)))"

definition waitpid_block :: "int \<Rightarrow> world \<Rightarrow> world" where
  \<comment> \<open>\<^verbatim>\<open>waitpid(p, _, 0)\<close> for \<open>0 < p\<close>: returns once child \<open>p\<close> has terminated and
      removes it from the process table, or fails at once when \<open>p\<close> is no child. Every
      caller discards both the result and the status.\<close>
  "waitpid_block p w = w\<lparr>procs := (procs w)(p := None), waited := waited w @ [p]\<rparr>"

definition waitpid_nohang :: "int \<Rightarrow> world \<Rightarrow> int \<times> world" where
  \<comment> \<open>\<^verbatim>\<open>waitpid(p, &status, WNOHANG)\<close> for \<open>0 < p\<close>: \<open>p\<close> when child \<open>p\<close> has terminated
      (it is reaped), 0 when it still runs, -1 (ECHILD) when \<open>p\<close> is no child of the
      shell. The call gives \<open>p \<le> 0\<close> another meaning (any child), which is not modelled:
      every process id the shell stores comes from \<^verbatim>\<open>fork\<close>.\<close>
  "waitpid_nohang p w =
     (let w1 = w\<lparr>probed := probed w @ [p]\<rparr>
      in case procs w p of
           None \<Rightarrow> (- 1, w1)
         | Some Running \<Rightarrow> (0, w1)
         | Some Zombie \<Rightarrow> (p, w1\<lparr>procs := (procs w)(p := None)\<rparr>))"

definition eprint :: "string \<Rightarrow> world \<Rightarrow> world" where
  \<comment> \<open>\<^verbatim>\<open>perror(s)\<close> and \<^verbatim>\<open>fprintf(stderr, ...)\<close>; of \<^verbatim>\<open>perror\<close> the prefix is kept, the
      text for \<^verbatim>\<open>errno\<close> is not\<close>
  "eprint s w = w\<lparr>stderr := stderr w @ [s]\<rparr>"

definition print :: "string \<Rightarrow> world \<Rightarrow> world" where
  "print s w = w\<lparr>stdout := stdout w @ [s]\<rparr>"

subsection \<open>Formatting\<close>

definition nl :: string where
  "nl = [CHR 0x0A]"

fun string_of_nat :: "nat \<Rightarrow> string" where
  "string_of_nat n =
     (if n < 10 then [''0123456789'' ! n]
      else string_of_nat (n div 10) @ [''0123456789'' ! (n mod 10)])"

declare string_of_nat.simps [simp del]

definition string_of_int :: "int \<Rightarrow> string" where
  \<comment> \<open>the conversion \<^verbatim>\<open>%d\<close>\<close>
  "string_of_int i = (if i < 0 then ''-'' @ string_of_nat (nat (- i)) else string_of_nat (nat i))"

definition snprintf_s :: "nat \<Rightarrow> string \<Rightarrow> string" where
  \<comment> \<open>\<^verbatim>\<open>snprintf(buf, n, "%s", s)\<close> for \<open>0 < n\<close>: at most \<open>n - 1\<close> characters and
      the terminating NUL\<close>
  "snprintf_s n s = take (n - 1) s"

section \<open>The job registry (jobs.c)\<close>

function add_job_from :: "nat \<Rightarrow> int \<Rightarrow> string option \<Rightarrow> world \<Rightarrow> int \<times> world" where
  "add_job_from i p cmdline w =
     (if i < MAX_JOBS then
        (if \<not> job_active (g_jobs w ! i) then
           (int i,
            w\<lparr>g_jobs := (g_jobs w)
                [i := \<lparr>job_pid = p, job_active = True,
                       job_cmdline = snprintf_s CMDLINE_SIZE
                         (case cmdline of None \<Rightarrow> '''' | Some s \<Rightarrow> s)\<rparr>]\<rparr>)
         else add_job_from (Suc i) p cmdline w)
      else (- 1, eprint (''jobs: job table full'' @ nl) w))"
  by pat_completeness auto
termination
  by (relation "measure (\<lambda>(i, p, c, w). MAX_JOBS - i)") auto

declare add_job_from.simps [simp del]

definition add_job :: "int \<Rightarrow> string option \<Rightarrow> world \<Rightarrow> int \<times> world" where
  "add_job p cmdline w = add_job_from 0 p cmdline w"

function reap_from :: "nat \<Rightarrow> world \<Rightarrow> world" where
  "reap_from i w =
     (if i < MAX_JOBS then
        (if \<not> job_active (g_jobs w ! i) then reap_from (Suc i) w
         else
           (case waitpid_nohang (job_pid (g_jobs w ! i)) w of
              (r, w1) \<Rightarrow>
                reap_from (Suc i)
                  (if r = job_pid (g_jobs w1 ! i)
                   then w1\<lparr>g_jobs := (g_jobs w1)[i := (g_jobs w1 ! i)\<lparr>job_active := False\<rparr>]\<rparr>
                   else w1)))
      else w)"
  by pat_completeness auto
termination
  by (relation "measure (\<lambda>(i, w). MAX_JOBS - i)") auto

declare reap_from.simps [simp del]

definition reap_finished_jobs :: "world \<Rightarrow> world" where
  "reap_finished_jobs w = reap_from 0 w"

definition job_line :: "job_t \<Rightarrow> string" where
  \<comment> \<open>\<^verbatim>\<open>"[%d] Running  %s\n"\<close> with the arguments of \<^verbatim>\<open>print_jobs\<close>\<close>
  "job_line j =
     ''['' @ string_of_int (job_pid j) @ ''] Running  '' @
     (if job_cmdline j \<noteq> [] then job_cmdline j else ''(unknown)'') @ nl"

function print_from :: "nat \<Rightarrow> bool \<Rightarrow> world \<Rightarrow> bool \<times> world" where
  "print_from i any w =
     (if i < MAX_JOBS then
        (if job_active (g_jobs w ! i)
         then print_from (Suc i) True (print (job_line (g_jobs w ! i)) w)
         else print_from (Suc i) any w)
      else (any, w))"
  by pat_completeness auto
termination
  by (relation "measure (\<lambda>(i, a, w). MAX_JOBS - i)") auto

declare print_from.simps [simp del]

definition print_jobs :: "world \<Rightarrow> world" where
  "print_jobs w =
     (case print_from 0 False (reap_finished_jobs w) of
        (any, w1) \<Rightarrow> if \<not> any then print (''(no background jobs)'' @ nl) w1 else w1)"

section \<open>The executor (executor.c)\<close>

text \<open>
  Modelled from the spec: \<^verbatim>\<open>struct cmdline\<close> is declared in \<^verbatim>\<open>parser.h\<close>, which is not
  part of the sources. The executor reads its members \<^verbatim>\<open>seq\<close> (the stages, a
  NULL-terminated array of NULL-terminated argument vectors), \<^verbatim>\<open>in\<close> and \<^verbatim>\<open>out\<close> (paths,
  or NULL) and \<^verbatim>\<open>bg\<close>. A stage is the list of its arguments, so the stage whose
  \<^verbatim>\<open>argv[0]\<close> is NULL is the empty list, and a null pointer is \<open>None\<close>.
\<close>

record cmdline =
  l_seq :: "string list list"
  l_in :: "string option"
  l_out :: "string option"
  l_bg :: bool

definition execute_command ::
    "string option \<Rightarrow> string list option \<Rightarrow> int \<Rightarrow> int \<Rightarrow> bool \<Rightarrow> world \<Rightarrow> int \<times> world" where
  "execute_command cmd args i out bgf w =
     (if cmd = None \<or> args = None \<or> the args = [] then (EXIT_SUCCESS, w)
      else
        (case fork i out (the cmd) (the args) w of
           (p, w1) \<Rightarrow>
             if p < 0 then
               (let w2 = eprint ''fork'' w1;
                    w3 = (if i \<noteq> STDIN_FILENO then close_fd i w2 else w2);
                    w4 = (if out \<noteq> STDOUT_FILENO then close_fd out w3 else w3)
                in (EXIT_FAILURE, w4))
             else
               (let w2 = (if i \<noteq> STDIN_FILENO then close_fd i w1 else w1);
                    w3 = (if out \<noteq> STDOUT_FILENO then close_fd out w2 else w2);
                    w4 = (if \<not> bgf then waitpid_block p w3
                          else snd (add_job p (Some (g_last_cmdline w3)) w3))
                in (EXIT_SUCCESS, w4))))"

text \<open>The single-command path of \<^verbatim>\<open>execute\<close> (\<^verbatim>\<open>ncmds == 1\<close>).\<close>

definition execute_single :: "cmdline \<Rightarrow> world \<Rightarrow> int \<times> world" where
  "execute_single l w =
     (let argv = l_seq l ! 0 in
      if argv = [] then (EXIT_SUCCESS, w)
      else if argv ! 0 = ''jobs'' then (EXIT_SUCCESS, print_jobs w)
      else
        (case (case l_in l of None \<Rightarrow> (STDIN_FILENO, w) | Some path \<Rightarrow> openf path O_RDONLY w) of
           (in_fd, w1) \<Rightarrow>
             if l_in l \<noteq> None \<and> in_fd < 0 then (EXIT_FAILURE, eprint (the (l_in l)) w1)
             else
               (case (case l_out l of None \<Rightarrow> (STDOUT_FILENO, w1)
                                    | Some path \<Rightarrow> openf path O_WRONLY_CREAT_TRUNC w1) of
                  (out_fd, w2) \<Rightarrow>
                    if l_out l \<noteq> None \<and> out_fd < 0 then
                      (let w3 = eprint (the (l_out l)) w2;
                           w4 = (if in_fd \<noteq> STDIN_FILENO then close_fd in_fd w3 else w3)
                       in (EXIT_FAILURE, w4))
                    else execute_command (Some (argv ! 0)) (Some argv) in_fd out_fd (l_bg l) w2)))"

text \<open>
  \<^verbatim>\<open>for (k = 0; k < n; k++) { close(pipes[k][0]); close(pipes[k][1]); }\<close> over the
  pipes given.
\<close>

fun close_pipes :: "(int \<times> int) list \<Rightarrow> world \<Rightarrow> world" where
  "close_pipes [] w = w"
| "close_pipes (p # ps) w = close_pipes ps (close_fd (snd p) (close_fd (fst p) w))"

text \<open>
  The loop that creates the pipes. \<open>pipes\<close> holds the entries written so far, which are
  the only ones the code reads.
\<close>

function create_pipes ::
    "nat \<Rightarrow> nat \<Rightarrow> (int \<times> int) list \<Rightarrow> world \<Rightarrow> (int \<times> int) list option \<times> world" where
  "create_pipes i npipes pipes w =
     (if i < npipes then
        (case pipef w of
           (None, w1) \<Rightarrow> (None, close_pipes (take i pipes) (eprint ''pipe'' w1))
         | (Some p, w1) \<Rightarrow> create_pipes (Suc i) npipes (pipes @ [p]) w1)
      else (Some pipes, w))"
  by pat_completeness auto
termination
  by (relation "measure (\<lambda>(i, n, ps, w). n - i)") auto

declare create_pipes.simps [simp del]

text \<open>
  The loop that forks the stages. It ends in the label \<^verbatim>\<open>PIPE_FAIL\<close> (\<open>False\<close>) or
  falls through (\<open>True\<close>), with the values of \<^verbatim>\<open>in_fd_first\<close> and \<^verbatim>\<open>pids\<close> at that
  point.
\<close>

function spawn_stages ::
    "cmdline \<Rightarrow> (int \<times> int) list \<Rightarrow> int \<Rightarrow> nat \<Rightarrow> int \<Rightarrow> int list \<Rightarrow> world
       \<Rightarrow> bool \<times> int \<times> int list \<times> world" where
  "spawn_stages l pipes out_fd_last i in_fd_first pids w =
     (let ncmds = length (l_seq l) in
      if i < ncmds then
        (let argv = l_seq l ! i in
         if argv = [] then
           (False, in_fd_first, pids,
            eprint (''empty command in pipeline at stage '' @ string_of_int (int i) @ nl) w)
         else
           (case fork (if i = 0 then in_fd_first else fst (pipes ! (i - 1)))
                      (if i = ncmds - 1 then out_fd_last else snd (pipes ! i))
                      (argv ! 0) argv w of
              (p, w1) \<Rightarrow>
                if p < 0 then (False, in_fd_first, pids, eprint ''fork'' w1)
                else
                  (let pids1 = pids[i := p];
                       w2 = (if i = 0 \<and> in_fd_first \<noteq> STDIN_FILENO
                             then close_fd in_fd_first w1 else w1);
                       in1 = (if i = 0 \<and> in_fd_first \<noteq> STDIN_FILENO
                              then STDIN_FILENO else in_fd_first);
                       w3 = (if i > 0 then close_fd (snd (pipes ! (i - 1))) w2 else w2)
                   in spawn_stages l pipes out_fd_last (Suc i) in1 pids1 w3)))
      else (True, in_fd_first, pids, w))"
  by pat_completeness auto
termination
  by (relation "measure (\<lambda>(l, ps, out, i, inf, pids, w). length (l_seq l) - i)") auto

declare spawn_stages.simps [simp del]

text \<open>\<^verbatim>\<open>for (t = 0; t < ncmds; t++) (void)waitpid(pids[t], &status, 0);\<close>\<close>

fun wait_all :: "int list \<Rightarrow> world \<Rightarrow> world" where
  "wait_all [] w = w"
| "wait_all (p # ps) w = wait_all ps (waitpid_block p w)"

text \<open>
  \<^verbatim>\<open>for (t = 0; t < ncmds; t++) if (pids && pids[t] > 0) (void)waitpid(pids[t], NULL, 0);\<close>
  where \<^verbatim>\<open>pids\<close> is not null.
\<close>

fun reap_forked :: "int list \<Rightarrow> world \<Rightarrow> world" where
  "reap_forked [] w = w"
| "reap_forked (p # ps) w = reap_forked ps (if p > 0 then waitpid_block p w else w)"

text \<open>The block at the label \<^verbatim>\<open>PIPE_FAIL\<close>.\<close>

definition pipe_fail ::
    "(int \<times> int) list \<Rightarrow> int \<Rightarrow> int \<Rightarrow> int list \<Rightarrow> world \<Rightarrow> int \<times> world" where
  "pipe_fail pipes in_fd_first out_fd_last pids w =
     (let w1 = close_pipes pipes w;
          w2 = (if in_fd_first \<noteq> STDIN_FILENO then close_fd in_fd_first w1 else w1);
          w3 = (if out_fd_last \<noteq> STDOUT_FILENO then close_fd out_fd_last w2 else w2);
          w4 = reap_forked pids w3
      in (EXIT_FAILURE, w4))"

text \<open>
  The pipeline path of \<^verbatim>\<open>execute\<close> (\<^verbatim>\<open>ncmds >= 2\<close>), in the order of the code.

  First the part before the loop that forks: the allocation of \<^verbatim>\<open>pipes\<close>, the pipes,
  the two redirection endpoints and the allocation of \<^verbatim>\<open>pids\<close>. Each failure cleans up
  and makes \<^verbatim>\<open>execute\<close> return \<^verbatim>\<open>EXIT_FAILURE\<close>, which is the result \<open>None\<close> here;
  otherwise the values of \<^verbatim>\<open>pipes\<close>, \<^verbatim>\<open>in_fd_first\<close> and \<^verbatim>\<open>out_fd_last\<close> go on.
\<close>

definition pipeline_setup ::
    "cmdline \<Rightarrow> world \<Rightarrow> ((int \<times> int) list \<times> int \<times> int) option \<times> world" where
  "pipeline_setup l w =
     (let ncmds = length (l_seq l); npipes = ncmds - 1 in
      case (if npipes > 0 then malloc w else (True, w)) of
        (pipes_ok, wa) \<Rightarrow>
      if \<not> pipes_ok then (None, eprint ''malloc pipes'' wa)
      else
      case create_pipes 0 npipes [] wa of
        (None, wb) \<Rightarrow> (None, wb)
      | (Some pipes, wb) \<Rightarrow>
      case (case l_in l of None \<Rightarrow> (STDIN_FILENO, wb) | Some path \<Rightarrow> openf path O_RDONLY wb) of
        (in_fd_first, wc) \<Rightarrow>
      if l_in l \<noteq> None \<and> in_fd_first < 0 then
        (None, close_pipes pipes (eprint (the (l_in l)) wc))
      else
      case (case l_out l of None \<Rightarrow> (STDOUT_FILENO, wc)
                           | Some path \<Rightarrow> openf path O_WRONLY_CREAT_TRUNC wc) of
        (out_fd_last, wd) \<Rightarrow>
      if l_out l \<noteq> None \<and> out_fd_last < 0 then
        (let w1 = eprint (the (l_out l)) wd;
             w2 = (if in_fd_first \<noteq> STDIN_FILENO then close_fd in_fd_first w1 else w1)
         in (None, close_pipes pipes w2))
      else
      case malloc wd of
        (pids_ok, we) \<Rightarrow>
      if \<not> pids_ok then
        (let w1 = eprint ''malloc pids'' we;
             w2 = (if in_fd_first \<noteq> STDIN_FILENO then close_fd in_fd_first w1 else w1);
             w3 = (if out_fd_last \<noteq> STDOUT_FILENO then close_fd out_fd_last w2 else w2)
         in (None, close_pipes pipes w3))
      else (Some (pipes, in_fd_first, out_fd_last), we))"

text \<open>The part after the loop, when every stage was forked.\<close>

definition pipeline_finish ::
    "cmdline \<Rightarrow> (int \<times> int) list \<Rightarrow> int \<Rightarrow> int list \<Rightarrow> world \<Rightarrow> int \<times> world" where
  "pipeline_finish l pipes out_fd_last pids w =
     (let w1 = close_pipes pipes w;
          w2 = (if out_fd_last \<noteq> STDOUT_FILENO then close_fd out_fd_last w1 else w1);
          w3 = (if \<not> l_bg l then wait_all pids w2
                else snd (add_job (pids ! 0) (Some (g_last_cmdline w2)) w2))
      in (EXIT_SUCCESS, w3))"

text \<open>
  The whole path. The array \<^verbatim>\<open>pids\<close> comes from \<^verbatim>\<open>malloc\<close>, so it starts with whatever
  the block held.
\<close>

definition execute_pipeline :: "cmdline \<Rightarrow> world \<Rightarrow> int \<times> world" where
  "execute_pipeline l w =
     (case pipeline_setup l w of
        (None, w1) \<Rightarrow> (EXIT_FAILURE, w1)
      | (Some (pipes, in_fd_first, out_fd_last), w1) \<Rightarrow>
          (case spawn_stages l pipes out_fd_last 0 in_fd_first
                  (map (heap_junk w1) [0..<length (l_seq l)]) w1 of
             (False, in_fd_first1, pids, w2) \<Rightarrow> pipe_fail pipes in_fd_first1 out_fd_last pids w2
           | (True, in_fd_first1, pids, w2) \<Rightarrow> pipeline_finish l pipes out_fd_last pids w2))"

definition execute :: "cmdline option \<Rightarrow> world \<Rightarrow> int \<times> world" where
  "execute lo w =
     (case lo of
        None \<Rightarrow> (EXIT_SUCCESS, w)
      | Some l \<Rightarrow>
          (let w0 = reap_finished_jobs w; ncmds = length (l_seq l) in
           if ncmds = 0 then (EXIT_SUCCESS, w0)
           else if ncmds = 1 then execute_single l w0
           else execute_pipeline l w0))"

section \<open>The single-command path in the words of the specification\<close>

text \<open>
  The specification describes the path for one stage as two steps: resolve the end
  redirections, then call the single-command executor with the descriptors found. The
  first step in its words: if an input path is given, open it read-only; if an output path
  is given, open, create and truncate it write-only; either failure aborts, with one
  diagnostic line and closing anything already opened. \<open>None\<close> is the abort.
\<close>

definition resolve_end_redirections :: "cmdline \<Rightarrow> world \<Rightarrow> (int \<times> int) option \<times> world" where
  "resolve_end_redirections l w =
     (case (case l_in l of
              None \<Rightarrow> (Some STDIN_FILENO, w)
            | Some path \<Rightarrow>
                (case openf path O_RDONLY w of
                   (fd, w1) \<Rightarrow> if fd < 0 then (None, eprint path w1) else (Some fd, w1))) of
        (None, w1) \<Rightarrow> (None, w1)
      | (Some i, w1) \<Rightarrow>
          (case l_out l of
             None \<Rightarrow> (Some (i, STDOUT_FILENO), w1)
           | Some path \<Rightarrow>
               (case openf path O_WRONLY_CREAT_TRUNC w1 of
                  (fd, w2) \<Rightarrow>
                    if fd < 0
                    then (None, (if l_in l \<noteq> None then close_fd i (eprint path w2)
                                 else eprint path w2))
                    else (Some (i, fd), w2))))"

text \<open>
  The second step, after the reap that every invocation starts with: the executor is
  called directly with the stage's program and arguments, the resolved descriptors and the
  background flag.
\<close>

definition single_command_spec :: "cmdline \<Rightarrow> world \<Rightarrow> int \<times> world" where
  "single_command_spec l w =
     (let argv = l_seq l ! 0 in
      case resolve_end_redirections l (reap_finished_jobs w) of
        (None, w1) \<Rightarrow> (EXIT_FAILURE, w1)
      | (Some (i, out), w1) \<Rightarrow>
          execute_command (case argv of [] \<Rightarrow> None | a # _ \<Rightarrow> Some a) (Some argv)
            i out (l_bg l) w1)"

section \<open>Notions used in the proofs\<close>

text \<open>One round of the loop of \<^verbatim>\<open>reap_finished_jobs\<close>.\<close>

definition reap_slot :: "nat \<Rightarrow> world \<Rightarrow> world" where
  "reap_slot i w =
     (if \<not> job_active (g_jobs w ! i) then w
      else (case waitpid_nohang (job_pid (g_jobs w ! i)) w of
              (r, w1) \<Rightarrow>
                  (if r = job_pid (g_jobs w1 ! i)
                   then w1\<lparr>g_jobs := (g_jobs w1)[i := (g_jobs w1 ! i)\<lparr>job_active := False\<rparr>]\<rparr>
                   else w1)))"

text \<open>
  The second world differs from the first in the entries of the job table, the process
  table and the log of status checks at most.
\<close>

definition same_env :: "world \<Rightarrow> world \<Rightarrow> bool" where
  "same_env w w' \<longleftrightarrow>
     fds w' = fds w \<and> stdout w' = stdout w \<and> stderr w' = stderr w \<and>
     spawned w' = spawned w \<and> waited w' = waited w \<and> open_calls w' = open_calls w \<and>
     g_last_cmdline w' = g_last_cmdline w \<and>
     nfork w' = nfork w \<and> fork_ret w' = fork_ret w \<and>
     npipe w' = npipe w \<and> pipe_ok w' = pipe_ok w \<and>
     nopen w' = nopen w \<and> open_ok w' = open_ok w \<and>
     nmalloc w' = nmalloc w \<and> malloc_ok w' = malloc_ok w \<and>
     heap_junk w' = heap_junk w \<and> length (g_jobs w') = length (g_jobs w)"

text \<open>
  The descriptors of a list of pipes, and the descriptors that stay open when the pipes and
  the two endpoints (unless they are the standard ones) are closed.
\<close>

definition ends :: "(int \<times> int) list \<Rightarrow> int set" where
  "ends ps = fst ` set ps \<union> snd ` set ps"

definition residue :: "(int \<times> int) list \<Rightarrow> int \<Rightarrow> int \<Rightarrow> world \<Rightarrow> int set" where
  "residue ps i out w =
     set (fds w) - ends ps - (if i \<noteq> STDIN_FILENO then {i} else {})
                 - (if out \<noteq> STDOUT_FILENO then {out} else {})"

text \<open>
  The system calls by kind: those that only touch descriptors, diagnostics and the heap;
  those and \<^verbatim>\<open>fork\<close>; those and the blocking wait and the registration of a job. What
  a run of calls of each kind leaves untouched is \<open>quiet\<close>, \<open>calm\<close> and \<open>hushed\<close>.
\<close>

definition prim_step :: "world \<Rightarrow> world \<Rightarrow> bool" where
  "prim_step a b \<longleftrightarrow>
     (\<exists>fd. b = close_fd fd a) \<or> (\<exists>s. b = eprint s a) \<or>
     (\<exists>path fl. b = snd (openf path fl a)) \<or> b = snd (pipef a) \<or> b = snd (malloc a)"

definition fork_step :: "world \<Rightarrow> world \<Rightarrow> bool" where
  "fork_step a b \<longleftrightarrow> prim_step a b \<or> (\<exists>i out prog argv. b = snd (fork i out prog argv a))"

definition exec_step :: "world \<Rightarrow> world \<Rightarrow> bool" where
  "exec_step a b \<longleftrightarrow>
     fork_step a b \<or> (\<exists>p. b = waitpid_block p a) \<or> (\<exists>p c. b = snd (add_job p c a))"

definition quiet :: "world \<Rightarrow> world \<Rightarrow> bool" where
  "quiet a b \<longleftrightarrow>
     g_jobs b = g_jobs a \<and> g_last_cmdline b = g_last_cmdline a \<and> stdout b = stdout a \<and>
     probed b = probed a \<and> waited b = waited a \<and> heap_junk b = heap_junk a \<and>
     spawned b = spawned a \<and> procs b = procs a \<and> nfork b = nfork a \<and> fork_ret b = fork_ret a"

definition calm :: "world \<Rightarrow> world \<Rightarrow> bool" where
  "calm a b \<longleftrightarrow>
     g_jobs b = g_jobs a \<and> g_last_cmdline b = g_last_cmdline a \<and> stdout b = stdout a \<and>
     probed b = probed a \<and> waited b = waited a \<and> heap_junk b = heap_junk a"

definition hushed :: "world \<Rightarrow> world \<Rightarrow> bool" where
  "hushed a b \<longleftrightarrow> stdout b = stdout a \<and> g_last_cmdline b = g_last_cmdline a \<and>
     probed b = probed a \<and> heap_junk b = heap_junk a"

section \<open>Worlds and command lines for the examples\<close>

text \<open>
  \<open>w_idle\<close> is a shell with its three standard descriptors, no child, an empty job
  table and an environment in which every call succeeds. The others differ from it as
  their names say: three registered jobs (one terminated, one running, one that is no
  child any more), three registered jobs that are all children (one terminated, two
  running), a table of 64 running jobs, a shell started with its standard input closed
  (and one in which the second \<^verbatim>\<open>open\<close> fails as well), a full table, a stale process
  id in the heap with a failing second \<^verbatim>\<open>fork\<close>, and a failing second \<^verbatim>\<open>fork\<close>
  alone.
\<close>

definition idle_slot :: job_t where
  "idle_slot = \<lparr>job_pid = 0, job_active = False, job_cmdline = ''''\<rparr>"

definition w_idle :: world where
  "w_idle = \<lparr>fds = [0, 1, 2], procs = (\<lambda>_. None),
     g_jobs = replicate 64 idle_slot,
     g_last_cmdline = ''sleep 5 &'', stdout = [], stderr = [], spawned = [], waited = [],
     probed = [], open_calls = [], nfork = 0, fork_ret = (\<lambda>n. Some (100 + n)),
     npipe = 0, pipe_ok = (\<lambda>_. True), nopen = 0, open_ok = (\<lambda>_. True),
     nmalloc = 0, malloc_ok = (\<lambda>_. True), heap_junk = (\<lambda>_. 0)\<rparr>"

definition w_three :: world where
  "w_three = w_idle
     \<lparr>g_jobs :=
        [\<lparr>job_pid = 5, job_active = True, job_cmdline = ''sleep 5 &''\<rparr>,
         \<lparr>job_pid = 6, job_active = True, job_cmdline = ''''\<rparr>,
         \<lparr>job_pid = 7, job_active = True, job_cmdline = ''make &''\<rparr>] @ replicate 61 idle_slot,
      procs := [5 \<mapsto> Zombie, 6 \<mapsto> Running]\<rparr>"

definition w_live :: world where
  "w_live = w_idle
     \<lparr>g_jobs :=
        [\<lparr>job_pid = 5, job_active = True, job_cmdline = ''sleep 5 &''\<rparr>,
         \<lparr>job_pid = 6, job_active = True, job_cmdline = ''''\<rparr>,
         \<lparr>job_pid = 8, job_active = True, job_cmdline = ''make &''\<rparr>] @ replicate 61 idle_slot,
      procs := [5 \<mapsto> Zombie, 6 \<mapsto> Running, 8 \<mapsto> Running]\<rparr>"



definition w_no_stdin_out_fails :: world where
  "w_no_stdin_out_fails = w_idle\<lparr>fds := [1, 2], open_ok := (\<lambda>n. n = 0)\<rparr>"

definition w_full :: world where
  "w_full = w_idle\<lparr>g_jobs := replicate 64 \<lparr>job_pid = 9, job_active = True, job_cmdline = ''x''\<rparr>\<rparr>"

definition w_stale :: world where
  "w_stale = w_idle
     \<lparr>g_jobs := \<lparr>job_pid = 77, job_active = True, job_cmdline = ''sleep 100 &''\<rparr>
                 # replicate 63 idle_slot,
      procs := [77 \<mapsto> Running],
      fork_ret := (\<lambda>n. if n = 0 then Some 100 else None),
      heap_junk := (\<lambda>_. 77)\<rparr>"



definition l_two :: cmdline where
  "l_two = \<lparr>l_seq = [[''yes''], [''head'']], l_in = None, l_out = None, l_bg = False\<rparr>"


definition l_jobs :: cmdline where
  "l_jobs = \<lparr>l_seq = [[''jobs'']], l_in = Some ''in.txt'', l_out = Some ''out.txt'', l_bg = True\<rparr>"

definition l_jobs_pipe :: cmdline where
  "l_jobs_pipe = \<lparr>l_seq = [[''jobs''], [''wc'']], l_in = None, l_out = None, l_bg = False\<rparr>"

definition l_empty :: cmdline where
  "l_empty = \<lparr>l_seq = [[]], l_in = None, l_out = Some ''out.txt'', l_bg = False\<rparr>"

definition l_gap :: cmdline where
  "l_gap = \<lparr>l_seq = [[''ls''], [], [''wc'']], l_in = None, l_out = None, l_bg = False\<rparr>"


definition l_cat :: cmdline where
  "l_cat = \<lparr>l_seq = [[''cat'', ''-n'']], l_in = Some ''in.txt'', l_out = Some ''out.txt'',
            l_bg = False\<rparr>"

section \<open>Properties of the job registry\<close>

subsection \<open>Auxiliary facts\<close>

lemma same_env_refl: "same_env w w"
  by (simp add: same_env_def)

lemma same_env_trans: "same_env a b \<Longrightarrow> same_env b c \<Longrightarrow> same_env a c"
  by (simp add: same_env_def)

lemma all_from_split:
  "i < k \<Longrightarrow> (\<forall>j. i \<le> j \<and> j < k \<longrightarrow> P j) = (P i \<and> (\<forall>j. Suc i \<le> j \<and> j < k \<longrightarrow> P j))"
  by (auto simp: Suc_le_eq dest: le_neq_implies_less)

lemma reap_from_step: "i < MAX_JOBS \<Longrightarrow> reap_from i w = reap_from (Suc i) (reap_slot i w)"
  by (subst reap_from.simps) (simp add: reap_slot_def split: prod.splits)

lemma reap_from_stop: "\<not> i < MAX_JOBS \<Longrightarrow> reap_from i w = w"
  by (subst reap_from.simps) simp

lemma reap_slot_env: "same_env w (reap_slot i w)"
  by (simp add: same_env_def reap_slot_def waitpid_nohang_def Let_def
           split: option.splits pstate.splits)

lemma reap_from_env: "same_env w (reap_from i w)"
proof (induction "MAX_JOBS - i" arbitrary: i w)
  case 0
  then show ?case by (simp add: reap_from_stop same_env_refl)
next
  case (Suc n)
  then have lt: "i < MAX_JOBS" and "n = MAX_JOBS - Suc i" by auto
  then have "same_env (reap_slot i w) (reap_from (Suc i) (reap_slot i w))"
    using Suc.hyps(1) by blast
  with reap_slot_env [of w i] show ?case
    by (simp add: reap_from_step [OF lt]) (rule same_env_trans)
qed

lemma reap_slot_other: "k \<noteq> i \<Longrightarrow> g_jobs (reap_slot i w) ! k = g_jobs w ! k"
  by (simp add: reap_slot_def waitpid_nohang_def Let_def split: option.splits pstate.splits)

lemma reap_slot_pid:
  "job_pid (g_jobs (reap_slot i w) ! k) = job_pid (g_jobs w ! k)"
  "job_cmdline (g_jobs (reap_slot i w) ! k) = job_cmdline (g_jobs w ! k)"
proof -
  have s: "g_jobs (reap_slot i w) = g_jobs w \<or>
           g_jobs (reap_slot i w) = (g_jobs w)[i := (g_jobs w ! i)\<lparr>job_active := False\<rparr>]"
    by (simp add: reap_slot_def waitpid_nohang_def Let_def split: option.splits pstate.splits)
  have u1: "job_pid ((g_jobs w)[i := (g_jobs w ! i)\<lparr>job_active := False\<rparr>] ! k) = job_pid (g_jobs w ! k)"
    by (cases "k = i"; cases "i < length (g_jobs w)"; simp add: list_update_beyond)
  have u2: "job_cmdline ((g_jobs w)[i := (g_jobs w ! i)\<lparr>job_active := False\<rparr>] ! k) = job_cmdline (g_jobs w ! k)"
    by (cases "k = i"; cases "i < length (g_jobs w)"; simp add: list_update_beyond)
  note u = u1 u2
  from s u show "job_pid (g_jobs (reap_slot i w) ! k) = job_pid (g_jobs w ! k)"
    by auto
  from s u show "job_cmdline (g_jobs (reap_slot i w) ! k) = job_cmdline (g_jobs w ! k)"
    by auto
qed

lemma reap_slot_procs:
  "procs (reap_slot i w) =
     (if job_active (g_jobs w ! i) \<and> procs w (job_pid (g_jobs w ! i)) = Some Zombie
      then (procs w)(job_pid (g_jobs w ! i) := None) else procs w)"
  by (simp add: reap_slot_def waitpid_nohang_def Let_def split: option.splits pstate.splits)

lemma reap_slot_active:
  "i < length (g_jobs w) \<Longrightarrow> 0 < job_pid (g_jobs w ! i) \<Longrightarrow>
   job_active (g_jobs (reap_slot i w) ! i) =
     (job_active (g_jobs w ! i) \<and> procs w (job_pid (g_jobs w ! i)) \<noteq> Some Zombie)"
  by (simp add: reap_slot_def waitpid_nohang_def Let_def split: option.splits pstate.splits)

lemma reap_slot_probed:
  "probed (reap_slot i w) =
     probed w @ (if job_active (g_jobs w ! i) then [job_pid (g_jobs w ! i)] else [])"
  by (simp add: reap_slot_def waitpid_nohang_def Let_def split: option.splits pstate.splits)

lemma reap_slot_length: "length (g_jobs (reap_slot i w)) = length (g_jobs w)"
  using reap_slot_env [of w i] by (simp add: same_env_def)

lemma reap_from_below: "k < i \<Longrightarrow> g_jobs (reap_from i w) ! k = g_jobs w ! k"
proof (induction "MAX_JOBS - i" arbitrary: i w)
  case 0
  then show ?case by (simp add: reap_from_stop)
next
  case (Suc n)
  then have lt: "i < MAX_JOBS" and n: "n = MAX_JOBS - Suc i" by auto
  from Suc.hyps(1) [OF n, of "reap_slot i w"] Suc.prems
  have "g_jobs (reap_from (Suc i) (reap_slot i w)) ! k = g_jobs (reap_slot i w) ! k" by simp
  with Suc.prems show ?case by (simp add: reap_from_step [OF lt] reap_slot_other)
qed

lemma reap_from_pid:
  "job_pid (g_jobs (reap_from i w) ! k) = job_pid (g_jobs w ! k) \<and>
   job_cmdline (g_jobs (reap_from i w) ! k) = job_cmdline (g_jobs w ! k)"
proof (induction "MAX_JOBS - i" arbitrary: i w)
  case 0
  then show ?case by (simp add: reap_from_stop)
next
  case (Suc n)
  then have lt: "i < MAX_JOBS" and n: "n = MAX_JOBS - Suc i" by auto
  from Suc.hyps(1) [OF n, of "reap_slot i w"]
  show ?case by (simp add: reap_from_step [OF lt] reap_slot_pid)
qed

lemma reap_from_active:
  "length (g_jobs w) = MAX_JOBS \<Longrightarrow>
   \<forall>j. i \<le> j \<and> j < MAX_JOBS \<and> job_active (g_jobs w ! j) \<longrightarrow> 0 < job_pid (g_jobs w ! j) \<Longrightarrow>
   i \<le> k \<Longrightarrow> k < MAX_JOBS \<Longrightarrow>
   job_active (g_jobs (reap_from i w) ! k) =
     (job_active (g_jobs w ! k) \<and>
      \<not> (procs w (job_pid (g_jobs w ! k)) = Some Zombie \<and>
         (\<forall>j. i \<le> j \<and> j < k \<longrightarrow>
              \<not> (job_active (g_jobs w ! j) \<and> job_pid (g_jobs w ! j) = job_pid (g_jobs w ! k)))))"
proof (induction "MAX_JOBS - i" arbitrary: i w)
  case 0
  then show ?case by simp
next
  case (Suc n)
  then have lt: "i < MAX_JOBS" and n: "n = MAX_JOBS - Suc i" by auto
  let ?w = "reap_slot i w"
  have len: "length (g_jobs ?w) = MAX_JOBS" using Suc.prems(1) by (simp add: reap_slot_length)
  show ?case
  proof (cases "k = i")
    case True
    have "job_active (g_jobs (reap_from (Suc i) ?w) ! i) = job_active (g_jobs ?w ! i)"
      by (simp add: reap_from_below)
    also have "\<dots> = (job_active (g_jobs w ! i) \<and> procs w (job_pid (g_jobs w ! i)) \<noteq> Some Zombie)"
    proof (cases "job_active (g_jobs w ! i)")
      case True
      with Suc.prems(2) lt have "0 < job_pid (g_jobs w ! i)" by simp
      then show ?thesis using lt Suc.prems(1) by (simp add: reap_slot_active)
    next
      case False
      then show ?thesis by (simp add: reap_slot_def)
    qed
    finally show ?thesis using True by (auto simp: reap_from_step [OF lt])
  next
    case False
    with Suc.prems have ik: "i < k" by simp
    have pos: "\<forall>j. Suc i \<le> j \<and> j < MAX_JOBS \<and> job_active (g_jobs ?w ! j) \<longrightarrow> 0 < job_pid (g_jobs ?w ! j)"
      using Suc.prems(2) by (auto simp: reap_slot_other reap_slot_pid)
    have same: "\<And>j. Suc i \<le> j \<Longrightarrow> g_jobs ?w ! j = g_jobs w ! j"
      by (simp add: reap_slot_other)
    have ih: "job_active (g_jobs (reap_from (Suc i) ?w) ! k) =
     (job_active (g_jobs ?w ! k) \<and>
      \<not> (procs ?w (job_pid (g_jobs ?w ! k)) = Some Zombie \<and>
         (\<forall>j. Suc i \<le> j \<and> j < k \<longrightarrow>
              \<not> (job_active (g_jobs ?w ! j) \<and> job_pid (g_jobs ?w ! j) = job_pid (g_jobs ?w ! k)))))"
      by (rule Suc.hyps(1) [OF n len pos]) (use ik Suc.prems(4) in simp_all)
    have ih': "job_active (g_jobs (reap_from (Suc i) ?w) ! k) =
     (job_active (g_jobs w ! k) \<and>
      \<not> (procs ?w (job_pid (g_jobs w ! k)) = Some Zombie \<and>
         (\<forall>j. Suc i \<le> j \<and> j < k \<longrightarrow>
              \<not> (job_active (g_jobs w ! j) \<and> job_pid (g_jobs w ! j) = job_pid (g_jobs w ! k)))))"
      using ik by (simp add: ih same cong: conj_cong)
    have sp: "(\<forall>j. i \<le> j \<and> j < k \<longrightarrow>
              \<not> (job_active (g_jobs w ! j) \<and> job_pid (g_jobs w ! j) = job_pid (g_jobs w ! k))) =
          (\<not> (job_active (g_jobs w ! i) \<and> job_pid (g_jobs w ! i) = job_pid (g_jobs w ! k)) \<and>
           (\<forall>j. Suc i \<le> j \<and> j < k \<longrightarrow>
              \<not> (job_active (g_jobs w ! j) \<and> job_pid (g_jobs w ! j) = job_pid (g_jobs w ! k))))"
      by (rule all_from_split [OF ik])
    show ?thesis
      unfolding reap_from_step [OF lt] ih' sp
      by (cases "job_active (g_jobs w ! i)"; cases "job_pid (g_jobs w ! i) = job_pid (g_jobs w ! k)";
          cases "procs w (job_pid (g_jobs w ! k)) = Some Zombie")
         (simp_all add: reap_slot_procs)
  qed
qed

lemma reap_from_probed:
  "length (g_jobs w) = MAX_JOBS \<Longrightarrow> i \<le> MAX_JOBS \<Longrightarrow>
   probed (reap_from i w) = probed w @ map job_pid (filter job_active (drop i (g_jobs w)))"
proof (induction "MAX_JOBS - i" arbitrary: i w)
  case 0
  then show ?case by (simp add: reap_from_stop)
next
  case (Suc n)
  then have lt: "i < MAX_JOBS" and n: "n = MAX_JOBS - Suc i" by auto
  let ?w = "reap_slot i w"
  have len: "length (g_jobs ?w) = MAX_JOBS" using Suc.prems(1) by (simp add: reap_slot_length)
  have d: "drop (Suc i) (g_jobs ?w) = drop (Suc i) (g_jobs w)"
    by (rule nth_equalityI) (simp_all add: reap_slot_length reap_slot_other)
  have c: "drop i (g_jobs w) = g_jobs w ! i # drop (Suc i) (g_jobs w)"
    using lt Suc.prems(1) by (simp add: Cons_nth_drop_Suc)
  from Suc.hyps(1) [OF n len] lt
  have "probed (reap_from (Suc i) ?w) = probed ?w @ map job_pid (filter job_active (drop (Suc i) (g_jobs ?w)))"
    by simp
  then show ?case
    by (simp add: reap_from_step [OF lt] d c reap_slot_probed)
qed



lemma print_from_eq:
  "length (g_jobs w) = MAX_JOBS \<Longrightarrow> i \<le> MAX_JOBS \<Longrightarrow>
   print_from i any w =
     (any \<or> filter job_active (drop i (g_jobs w)) \<noteq> [],
      w\<lparr>stdout := stdout w @ map job_line (filter job_active (drop i (g_jobs w)))\<rparr>)"
proof (induction "MAX_JOBS - i" arbitrary: i any w)
  case 0
  then show ?case by (subst print_from.simps) simp
next
  case (Suc n)
  then have lt: "i < MAX_JOBS" and n: "n = MAX_JOBS - Suc i" by auto
  have c: "drop i (g_jobs w) = g_jobs w ! i # drop (Suc i) (g_jobs w)"
    using lt Suc.prems(1) by (simp add: Cons_nth_drop_Suc)
  show ?case
  proof (cases "job_active (g_jobs w ! i)")
    case True
    have "print_from i any w = print_from (Suc i) True (print (job_line (g_jobs w ! i)) w)"
      using lt True by (subst print_from.simps) simp
    also have "\<dots> = (True, (print (job_line (g_jobs w ! i)) w)
        \<lparr>stdout := stdout (print (job_line (g_jobs w ! i)) w) @
           map job_line (filter job_active (drop (Suc i) (g_jobs (print (job_line (g_jobs w ! i)) w))))\<rparr>)"
      using Suc.hyps(1) [OF n, of "print (job_line (g_jobs w ! i)) w" True] Suc.prems(1) lt
      by (simp add: print_def)
    finally show ?thesis using True by (simp add: c print_def)
  next
    case False
    have "print_from i any w = print_from (Suc i) any w"
      using lt False by (subst print_from.simps) simp
    then show ?thesis
      using Suc.hyps(1) [OF n, of w any] Suc.prems(1) lt False by (simp add: c)
  qed
qed



lemma add_job_from_full:
  "\<forall>j. i \<le> j \<and> j < MAX_JOBS \<longrightarrow> job_active (g_jobs w ! j) \<Longrightarrow>
   add_job_from i p c w = (- 1, eprint (''jobs: job table full'' @ nl) w)"
proof (induction "MAX_JOBS - i" arbitrary: i)
  case 0
  then show ?case by (subst add_job_from.simps) simp
next
  case (Suc n)
  then have lt: "i < MAX_JOBS" and n: "n = MAX_JOBS - Suc i" by auto
  from Suc.prems lt have a: "job_active (g_jobs w ! i)" by simp
  from Suc.prems have "\<forall>j. Suc i \<le> j \<and> j < MAX_JOBS \<longrightarrow> job_active (g_jobs w ! j)" by simp
  from Suc.hyps(1) [OF n this] lt a show ?case by (subst add_job_from.simps) simp
qed

lemma add_job_from_found:
  "i \<le> k \<Longrightarrow> k < MAX_JOBS \<Longrightarrow> \<not> job_active (g_jobs w ! k) \<Longrightarrow>
   \<forall>j. i \<le> j \<and> j < k \<longrightarrow> job_active (g_jobs w ! j) \<Longrightarrow>
   add_job_from i p c w =
     (int k, w\<lparr>g_jobs := (g_jobs w)
        [k := \<lparr>job_pid = p, job_active = True,
               job_cmdline = snprintf_s CMDLINE_SIZE (case c of None \<Rightarrow> '''' | Some s \<Rightarrow> s)\<rparr>]\<rparr>)"
proof (induction "k - i" arbitrary: i)
  case 0
  then have "i = k" by simp
  with 0 show ?case by (subst add_job_from.simps) simp
next
  case (Suc n)
  then have lt: "i < k" and n: "n = k - Suc i" by auto
  with Suc.prems have a: "job_active (g_jobs w ! i)" and m: "i < MAX_JOBS" by auto
  from Suc.prems have "\<forall>j. Suc i \<le> j \<and> j < k \<longrightarrow> job_active (g_jobs w ! j)" by simp
  from Suc.hyps(1) [OF n _ Suc.prems(2,3) this] lt m a
  show ?case by (subst add_job_from.simps) simp
qed

lemma print_jobs_eq:
  assumes len: "length (g_jobs w) = MAX_JOBS"
  shows "print_jobs w =
           (reap_finished_jobs w)
             \<lparr>stdout := stdout w @
                (if filter job_active (g_jobs (reap_finished_jobs w)) = []
                 then [''(no background jobs)'' @ nl]
                 else map job_line (filter job_active (g_jobs (reap_finished_jobs w))))\<rparr>"
proof -
  let ?r = "reap_finished_jobs w"
  have env: "same_env w ?r"
    by (simp add: reap_finished_jobs_def reap_from_env)
  then have lr: "length (g_jobs ?r) = MAX_JOBS" and so: "stdout ?r = stdout w"
    using len by (simp_all add: same_env_def)
  have pf: "print_from 0 False ?r =
     (filter job_active (g_jobs ?r) \<noteq> [],
      ?r\<lparr>stdout := stdout ?r @ map job_line (filter job_active (g_jobs ?r))\<rparr>)"
    using print_from_eq [OF lr, of 0 False] by simp
  show ?thesis
    by (simp add: print_jobs_def pf print_def so)
qed

lemma job_line_eq:
  "job_line = (\<lambda>j. ''['' @ string_of_int (job_pid j) @ ''] Running  '' @
                     (if job_cmdline j = [] then ''(unknown)'' else job_cmdline j) @ nl)"
  by (rule ext) (simp add: job_line_def)

text \<open>
  What the reap does to slot \<open>k\<close> of a table of 64 slots whose active slots hold process
  ids as \<^verbatim>\<open>fork\<close> returns them: the slot is active afterwards exactly when it was
  active and its status check did not answer its process id, which it does when the
  process has terminated and no earlier active slot with the same process id has taken the
  status. The process id and the text of every slot stay, each active slot is checked once
  with \<^verbatim>\<open>WNOHANG\<close>, in slot order, and no blocking wait is made.
\<close>

lemma reap_finished_jobs_active_iff:
  assumes len: "length (g_jobs w) = MAX_JOBS"
    and pos: "\<forall>j\<in>set (g_jobs w). job_active j \<longrightarrow> 0 < job_pid j"
    and k: "k < MAX_JOBS"
  shows "(job_active (g_jobs (reap_finished_jobs w) ! k) \<longleftrightarrow>
            job_active (g_jobs w ! k) \<and>
            \<not> (procs w (job_pid (g_jobs w ! k)) = Some Zombie \<and>
               (\<forall>j<k. \<not> (job_active (g_jobs w ! j) \<and>
                          job_pid (g_jobs w ! j) = job_pid (g_jobs w ! k)))))
       \<and> job_pid (g_jobs (reap_finished_jobs w) ! k) = job_pid (g_jobs w ! k)
       \<and> job_cmdline (g_jobs (reap_finished_jobs w) ! k) = job_cmdline (g_jobs w ! k)
       \<and> probed (reap_finished_jobs w) = probed w @ map job_pid (filter job_active (g_jobs w))
       \<and> waited (reap_finished_jobs w) = waited w"
proof -
  have pos': "\<forall>j. 0 \<le> j \<and> j < MAX_JOBS \<and> job_active (g_jobs w ! j) \<longrightarrow> 0 < job_pid (g_jobs w ! j)"
    using pos len by (auto dest: nth_mem)
  have a: "job_active (g_jobs (reap_finished_jobs w) ! k) \<longleftrightarrow>
            job_active (g_jobs w ! k) \<and>
            \<not> (procs w (job_pid (g_jobs w ! k)) = Some Zombie \<and>
               (\<forall>j<k. \<not> (job_active (g_jobs w ! j) \<and>
                          job_pid (g_jobs w ! j) = job_pid (g_jobs w ! k))))"
    unfolding reap_finished_jobs_def using reap_from_active [OF len pos' _ k, of ] by simp
  have c: "job_pid (g_jobs (reap_finished_jobs w) ! k) = job_pid (g_jobs w ! k)"
          "job_cmdline (g_jobs (reap_finished_jobs w) ! k) = job_cmdline (g_jobs w ! k)"
    by (simp_all add: reap_finished_jobs_def reap_from_pid)
  have d: "probed (reap_finished_jobs w) = probed w @ map job_pid (filter job_active (g_jobs w))"
    using reap_from_probed [OF len, of 0] by (simp add: reap_finished_jobs_def)
  have e: "waited (reap_finished_jobs w) = waited w"
    using reap_from_env [of w 0] by (simp add: reap_finished_jobs_def same_env_def)
  from a c d e show ?thesis by blast
qed

subsection \<open>Insertion\<close>

text \<open>
  Claim C4. \<^verbatim>\<open>add_job\<close> returns the index of the first inactive slot \<open>k\<close>; that slot then
  holds the process id, is active and holds the command text cut to 255 characters (the
  buffer has 256, one is the terminator; a null text is stored as the empty text); every
  other slot is as before. When all 64 slots are active the result is -1 and no slot has
  changed, so a 65th job is refused and the 64 tracked ones stay.
\<close>

theorem add_job_first_inactive_or_full:
  assumes len: "length (g_jobs w) = MAX_JOBS"
  shows "(k < MAX_JOBS \<and> \<not> job_active (g_jobs w ! k) \<and> (\<forall>j<k. job_active (g_jobs w ! j)) \<longrightarrow>
            fst (add_job p c w) = int k \<and>
            g_jobs (snd (add_job p c w)) ! k =
              \<lparr>job_pid = p, job_active = True,
               job_cmdline = take 255 (case c of None \<Rightarrow> '''' | Some s \<Rightarrow> s)\<rparr> \<and>
            (\<forall>j<MAX_JOBS. j \<noteq> k \<longrightarrow> g_jobs (snd (add_job p c w)) ! j = g_jobs w ! j) \<and>
            length (g_jobs (snd (add_job p c w))) = MAX_JOBS)
       \<and> ((\<forall>j<MAX_JOBS. job_active (g_jobs w ! j)) \<longrightarrow>
            fst (add_job p c w) = - 1 \<and> g_jobs (snd (add_job p c w)) = g_jobs w)"
proof (intro conjI impI)
  assume h: "k < MAX_JOBS \<and> \<not> job_active (g_jobs w ! k) \<and> (\<forall>j<k. job_active (g_jobs w ! j))"
  then have e: "add_job p c w =
     (int k, w\<lparr>g_jobs := (g_jobs w)
        [k := \<lparr>job_pid = p, job_active = True,
               job_cmdline = snprintf_s CMDLINE_SIZE (case c of None \<Rightarrow> '''' | Some s \<Rightarrow> s)\<rparr>]\<rparr>)"
    unfolding add_job_def by (intro add_job_from_found) auto
  show "fst (add_job p c w) = int k" by (simp add: e)
  show "g_jobs (snd (add_job p c w)) ! k =
              \<lparr>job_pid = p, job_active = True,
               job_cmdline = take 255 (case c of None \<Rightarrow> '''' | Some s \<Rightarrow> s)\<rparr>"
    using h len by (simp add: e snprintf_s_def CMDLINE_SIZE_def)
  show "length (g_jobs (snd (add_job p c w))) = MAX_JOBS" using len by (simp add: e)
  show "\<forall>j<MAX_JOBS. j \<noteq> k \<longrightarrow> g_jobs (snd (add_job p c w)) ! j = g_jobs w ! j"
    by (simp add: e)
next
  assume "\<forall>j<MAX_JOBS. job_active (g_jobs w ! j)"
  then have e: "add_job p c w = (- 1, eprint (''jobs: job table full'' @ nl) w)"
    unfolding add_job_def by (intro add_job_from_full) auto
  show "fst (add_job p c w) = - 1" by (simp add: e)
  show "g_jobs (snd (add_job p c w)) = g_jobs w" by (simp add: e eprint_def)
qed

text \<open>
  The table \<open>w_three\<close> has its first three slots active: a job with a text of 300
  characters goes to slot 3 with 255 of them. The full table \<open>w_full\<close> refuses the job.
\<close>

theorem add_job_first_inactive_or_full_witness:
  "fst (add_job 42 (Some (replicate 300 CHR ''a'')) w_three) = 3 \<and>
   g_jobs (snd (add_job 42 (Some (replicate 300 CHR ''a'')) w_three)) ! 3 =
     \<lparr>job_pid = 42, job_active = True, job_cmdline = replicate 255 CHR ''a''\<rparr> \<and>
   g_jobs (snd (add_job 42 (Some (replicate 300 CHR ''a'')) w_three)) ! 0 = g_jobs w_three ! 0 \<and>
   fst (add_job 42 None w_full) = - 1 \<and>
   g_jobs (snd (add_job 42 None w_full)) = g_jobs w_full"
proof -
  have l3: "length (g_jobs w_three) = MAX_JOBS"
    by (simp add: w_three_def w_idle_def MAX_JOBS_def)
  have lf: "length (g_jobs w_full) = MAX_JOBS"
    by (simp add: w_full_def w_idle_def MAX_JOBS_def)
  have h3: "3 < MAX_JOBS \<and> \<not> job_active (g_jobs w_three ! 3) \<and>
            (\<forall>j<3. job_active (g_jobs w_three ! j))"
    by (simp add: w_three_def w_idle_def MAX_JOBS_def idle_slot_def nth_append
          less_Suc_eq numeral_3_eq_3)
  have hf: "\<forall>j<MAX_JOBS. job_active (g_jobs w_full ! j)"
    by (simp add: w_full_def w_idle_def MAX_JOBS_def)
  from add_job_first_inactive_or_full [OF l3, of 3 42 "Some (replicate 300 CHR ''a'')"] h3
       add_job_first_inactive_or_full [OF lf, of 0 42 None] hf
  show ?thesis by (simp add: MAX_JOBS_def)
qed

subsection \<open>Reaping\<close>

text \<open>
  Claim C5 says that a slot whose process was reaped elsewhere is marked inactive, and the
  registry says the same of itself: an active slot is a running job and an inactive one a
  finished or empty one (\<^verbatim>\<open>jobs.h\<close>), and the listing reaps first so that dead
  processes are not shown (\<^verbatim>\<open>jobs.c\<close>). In \<open>w_three\<close> slot 0 belongs to a child that
  has terminated: its status check returns the process id and the slot is cleared, as the
  first half of the claim says. Slot 2 is active and its process 7 is no child of the
  shell any more: the status check answers -1, the code compares the answer with the
  slot's process id only, and the slot stays active, after a second call as well. The
  executor itself leaves such a table behind: after the failed pipeline in \<open>w_stale\<close>
  the job 77 has been reaped by a blocking wait, and the next reap keeps its slot active.
\<close>

theorem reap_finished_jobs_keeps_missing_process:
  "job_active (g_jobs w_three ! 0) \<and> job_pid (g_jobs w_three ! 0) = 5 \<and>
   procs w_three 5 = Some Zombie \<and>
   \<not> job_active (g_jobs (reap_finished_jobs w_three) ! 0) \<and>
   job_active (g_jobs w_three ! 2) \<and> job_pid (g_jobs w_three ! 2) = 7 \<and>
   procs w_three 7 = None \<and>
   fst (waitpid_nohang 7 w_three) = - 1 \<and>
   job_active (g_jobs (reap_finished_jobs w_three) ! 2) \<and>
   job_active (g_jobs (reap_finished_jobs (reap_finished_jobs w_three)) ! 2) \<and>
   job_pid (g_jobs (snd (execute (Some l_two) w_stale)) ! 0) = 77 \<and>
   procs (snd (execute (Some l_two) w_stale)) 77 = None \<and>
   job_active (g_jobs (reap_finished_jobs (snd (execute (Some l_two) w_stale))) ! 0)"
  by code_simp

subsection \<open>Listing\<close>




section \<open>Properties of the executor\<close>

subsection \<open>Auxiliary facts\<close>

lemma first_free_notin: "first_free n fs \<notin> set fs"
  by (induction n fs rule: first_free.induct) (subst first_free.simps, simp)

lemma first_free_ge: "n \<le> first_free n fs"
proof (induction n fs rule: first_free.induct)
  case (1 n fs)
  show ?case
  proof (cases "n \<in> set fs")
    case True
    with 1 have "n + 1 \<le> first_free (n + 1) fs" by simp
    with True show ?thesis by (subst first_free.simps) simp
  next
    case False
    then show ?thesis by (subst first_free.simps) simp
  qed
qed

lemma openf_cases:
  "openf path fl w = (fd, w') \<Longrightarrow>
   (fd = - 1 \<and> fds w' = fds w) \<or> (0 \<le> fd \<and> fd \<notin> set (fds w) \<and> fds w' = fds w @ [fd])"
  using first_free_notin [of 0 "fds w"] first_free_ge [of 0 "fds w"]
  by (auto simp: openf_def Let_def split: if_splits)


lemma ends_simps [simp]:
  "ends [] = {}" "ends (p # ps) = {fst p, snd p} \<union> ends ps" "ends (ps @ qs) = ends ps \<union> ends qs"
  by (auto simp: ends_def)

lemma close_fd_fds [simp]: "fds (close_fd fd w) = removeAll fd (fds w)"
  by (simp add: close_fd_def)

lemma eprint_fds [simp]: "fds (eprint s w) = fds w"
  by (simp add: eprint_def)

lemma close_pipes_fds: "set (fds (close_pipes ps w)) = set (fds w) - ends ps"
  by (induction ps arbitrary: w) auto



lemma waitpid_block_fds [simp]: "fds (waitpid_block p w) = fds w"
  by (simp add: waitpid_block_def)

lemma wait_all_fds [simp]: "fds (wait_all ps w) = fds w"
  by (induction ps arbitrary: w) auto

lemma reap_forked_fds [simp]: "fds (reap_forked ps w) = fds w"
  by (induction ps arbitrary: w) auto

lemma add_job_from_fds: "fds (snd (add_job_from i p c w)) = fds w"
proof (induction "MAX_JOBS - i" arbitrary: i)
  case 0
  then show ?case by (subst add_job_from.simps) simp
next
  case (Suc n)
  then have lt: "i < MAX_JOBS" and n: "n = MAX_JOBS - Suc i" by auto
  from Suc.hyps(1) [OF n] lt show ?case by (subst add_job_from.simps) simp
qed

lemma add_job_fds [simp]: "fds (snd (add_job p c w)) = fds w"
  by (simp add: add_job_def add_job_from_fds)


lemma residue_close_pipes:
  "set (fds (close_pipes ps w)) - (if i \<noteq> STDIN_FILENO then {i} else {})
      - (if out \<noteq> STDOUT_FILENO then {out} else {}) = residue ps i out w"
  by (auto simp: residue_def close_pipes_fds)



lemma spawn_stages_step:
  "i < length (l_seq l) \<Longrightarrow> l_seq l ! i \<noteq> [] \<Longrightarrow>
   fork (if i = 0 then ifd else fst (ps ! (i - 1)))
        (if i = length (l_seq l) - 1 then out else snd (ps ! i))
        (l_seq l ! i ! 0) (l_seq l ! i) w = (p, w1) \<Longrightarrow> \<not> p < 0 \<Longrightarrow>
   spawn_stages l ps out i ifd pids w =
     spawn_stages l ps out (Suc i)
       (if i = 0 \<and> ifd \<noteq> STDIN_FILENO then STDIN_FILENO else ifd)
       (pids[i := p])
       (let w2 = (if i = 0 \<and> ifd \<noteq> STDIN_FILENO then close_fd ifd w1 else w1)
        in if i > 0 then close_fd (snd (ps ! (i - 1))) w2 else w2)"
  by (subst spawn_stages.simps) (simp add: Let_def)

lemma spawn_stages_empty:
  "i < length (l_seq l) \<Longrightarrow> l_seq l ! i = [] \<Longrightarrow>
   spawn_stages l ps out i ifd pids w =
     (False, ifd, pids,
      eprint (''empty command in pipeline at stage '' @ string_of_int (int i) @ nl) w)"
  by (subst spawn_stages.simps) (simp add: Let_def)

lemma spawn_stages_fork_fail:
  "i < length (l_seq l) \<Longrightarrow> l_seq l ! i \<noteq> [] \<Longrightarrow>
   fork (if i = 0 then ifd else fst (ps ! (i - 1)))
        (if i = length (l_seq l) - 1 then out else snd (ps ! i))
        (l_seq l ! i ! 0) (l_seq l ! i) w = (p, w1) \<Longrightarrow> p < 0 \<Longrightarrow>
   spawn_stages l ps out i ifd pids w = (False, ifd, pids, eprint ''fork'' w1)"
  by (subst spawn_stages.simps) (simp add: Let_def)

lemma spawn_stages_done:
  "\<not> i < length (l_seq l) \<Longrightarrow> spawn_stages l ps out i ifd pids w = (True, ifd, pids, w)"
  by (subst spawn_stages.simps) (simp add: Let_def)




lemma endpoint_in_cases:
  "(case l_in l of None \<Rightarrow> (STDIN_FILENO, w) | Some path \<Rightarrow> openf path O_RDONLY w) = (i, w1) \<Longrightarrow>
   STDIN_FILENO \<in> set (fds w) \<Longrightarrow>
   (l_in l = None \<and> i = STDIN_FILENO \<and> w1 = w) \<or>
   (l_in l \<noteq> None \<and> i < 0 \<and> fds w1 = fds w) \<or>
   (l_in l \<noteq> None \<and> 0 \<le> i \<and> i \<noteq> STDIN_FILENO \<and> i \<notin> set (fds w) \<and> fds w1 = fds w @ [i])"
  by (cases "l_in l") (auto dest: openf_cases)







lemma execute_pipeline_cases:
  assumes e: "execute_pipeline l w = (r, w')"
  obtains (setup_failed) "pipeline_setup l w = (None, w')" "r = EXIT_FAILURE"
  | (spawn_failed) ps i out w1 i1 pids w2 where
      "pipeline_setup l w = (Some (ps, i, out), w1)"
      "spawn_stages l ps out 0 i (map (heap_junk w1) [0..<length (l_seq l)]) w1 = (False, i1, pids, w2)"
      "pipe_fail ps i1 out pids w2 = (r, w')"
  | (finished) ps i out w1 i1 pids w2 where
      "pipeline_setup l w = (Some (ps, i, out), w1)"
      "spawn_stages l ps out 0 i (map (heap_junk w1) [0..<length (l_seq l)]) w1 = (True, i1, pids, w2)"
      "pipeline_finish l ps out pids w2 = (r, w')"
proof -
  obtain st w1 where s: "pipeline_setup l w = (st, w1)" by (rule prod.exhaust)
  show thesis
  proof (cases st)
    case None
    with e s have "r = EXIT_FAILURE" "w' = w1" by (auto simp: execute_pipeline_def)
    with s None setup_failed show thesis by simp
  next
    case (Some t)
    obtain ps i out where t: "t = (ps, i, out)" by (cases t)
    obtain ok i1 pids w2 where
      sp: "spawn_stages l ps out 0 i (map (heap_junk w1) [0..<length (l_seq l)]) w1 = (ok, i1, pids, w2)"
      by (metis prod.exhaust)
    show thesis
    proof (cases ok)
      case True
      with e s Some t sp have "pipeline_finish l ps out pids w2 = (r, w')"
        by (simp add: execute_pipeline_def)
      with s Some t sp True finished show thesis by simp
    next
      case False
      with e s Some t sp have "pipe_fail ps i1 out pids w2 = (r, w')"
        by (simp add: execute_pipeline_def)
      with s Some t sp False spawn_failed show thesis by simp
    qed
  qed
qed



lemma print_from_only_stdout: "\<exists>out. snd (print_from i any w) = w\<lparr>stdout := out\<rparr>"
proof (induction "MAX_JOBS - i" arbitrary: i any w)
  case 0
  then have "snd (print_from i any w) = w\<lparr>stdout := stdout w\<rparr>"
    by (subst print_from.simps) simp
  then show ?case by blast
next
  case (Suc n)
  then have lt: "i < MAX_JOBS" and n: "n = MAX_JOBS - Suc i" by auto
  show ?case
  proof (cases "job_active (g_jobs w ! i)")
    case True
    from Suc.hyps(1) [OF n, of True "print (job_line (g_jobs w ! i)) w"]
    obtain out where "snd (print_from (Suc i) True (print (job_line (g_jobs w ! i)) w)) =
        (print (job_line (g_jobs w ! i)) w)\<lparr>stdout := out\<rparr>" by blast
    with lt True have "snd (print_from i any w) = w\<lparr>stdout := out\<rparr>"
      by (subst print_from.simps) (simp add: print_def)
    then show ?thesis by blast
  next
    case False
    from Suc.hyps(1) [OF n, of any w]
    obtain out where "snd (print_from (Suc i) any w) = w\<lparr>stdout := out\<rparr>" by blast
    with lt False have "snd (print_from i any w) = w\<lparr>stdout := out\<rparr>"
      by (subst print_from.simps) simp
    then show ?thesis by blast
  qed
qed

lemma print_jobs_only_stdout: "\<exists>out. print_jobs w = (reap_finished_jobs w)\<lparr>stdout := out\<rparr>"
proof -
  obtain any w1 where p: "print_from 0 False (reap_finished_jobs w) = (any, w1)"
    by (rule prod.exhaust)
  from print_from_only_stdout [of 0 False "reap_finished_jobs w"] p
  obtain out where "w1 = (reap_finished_jobs w)\<lparr>stdout := out\<rparr>" by auto
  with p have "print_jobs w = (reap_finished_jobs w)\<lparr>stdout := out\<rparr> \<or>
      print_jobs w = (reap_finished_jobs w)\<lparr>stdout := out @ [''(no background jobs)'' @ nl]\<rparr>"
    by (simp add: print_jobs_def print_def)
  then show ?thesis by blast
qed

lemma reap_finished_jobs_fds [simp]: "fds (reap_finished_jobs w) = fds w"
  using reap_from_env [of w 0] by (simp add: reap_finished_jobs_def same_env_def)

lemma print_jobs_fds [simp]: "fds (print_jobs w) = fds w"
  using print_jobs_only_stdout [of w] by auto


lemma prim_close: "prim_step\<^sup>*\<^sup>* a (close_fd fd a)"
  by (rule r_into_rtranclp) (auto simp: prim_step_def)

lemma prim_eprint: "prim_step\<^sup>*\<^sup>* a (eprint s a)"
  by (rule r_into_rtranclp) (auto simp: prim_step_def)

lemma prim_openf: "openf path fl a = (fd, b) \<Longrightarrow> prim_step\<^sup>*\<^sup>* a b"
proof -
  assume "openf path fl a = (fd, b)"
  then have "b = snd (openf path fl a)" by simp
  then have "prim_step a b" unfolding prim_step_def by blast
  then show ?thesis by (rule r_into_rtranclp)
qed

lemma steps3: "R\<^sup>*\<^sup>* a b \<Longrightarrow> R\<^sup>*\<^sup>* b c \<Longrightarrow> R\<^sup>*\<^sup>* c d \<Longrightarrow> R\<^sup>*\<^sup>* a d"
  by (blast intro: rtranclp_trans)

lemma steps4:
  "R\<^sup>*\<^sup>* a b \<Longrightarrow> R\<^sup>*\<^sup>* b c \<Longrightarrow> R\<^sup>*\<^sup>* c d \<Longrightarrow> R\<^sup>*\<^sup>* d e \<Longrightarrow> R\<^sup>*\<^sup>* a e"
  by (blast intro: rtranclp_trans)

lemma steps5:
  "R\<^sup>*\<^sup>* a b \<Longrightarrow> R\<^sup>*\<^sup>* b c \<Longrightarrow> R\<^sup>*\<^sup>* c d \<Longrightarrow> R\<^sup>*\<^sup>* d e \<Longrightarrow> R\<^sup>*\<^sup>* e f \<Longrightarrow>
   R\<^sup>*\<^sup>* a f"
  by (blast intro: rtranclp_trans)

lemma prim_pipef: "pipef a = (r, b) \<Longrightarrow> prim_step\<^sup>*\<^sup>* a b"
  by (rule r_into_rtranclp) (auto simp: prim_step_def)

lemma prim_malloc: "malloc a = (r, b) \<Longrightarrow> prim_step\<^sup>*\<^sup>* a b"
  by (rule r_into_rtranclp) (auto simp: prim_step_def)

lemma prim_close_if: "prim_step\<^sup>*\<^sup>* a (if c then close_fd fd a else a)"
  by (simp add: prim_close)

lemma prim_close_pipes: "prim_step\<^sup>*\<^sup>* a (close_pipes ps a)"
proof (induction ps arbitrary: a)
  case Nil
  show ?case by simp
next
  case (Cons p ps)
  have "prim_step\<^sup>*\<^sup>* a (close_fd (snd p) (close_fd (fst p) a))"
    using prim_close [of a "fst p"] prim_close [of "close_fd (fst p) a" "snd p"]
    by (rule rtranclp_trans)
  from this Cons [of "close_fd (snd p) (close_fd (fst p) a)"]
  have "prim_step\<^sup>*\<^sup>* a (close_pipes ps (close_fd (snd p) (close_fd (fst p) a)))"
    by (rule rtranclp_trans)
  then show ?case by simp
qed

lemma prim_create_pipes: "create_pipes i n acc w = (r, w') \<Longrightarrow> prim_step\<^sup>*\<^sup>* w w'"
proof (induction "n - i" arbitrary: i acc w)
  case 0
  then have "\<not> i < n" by simp
  with 0 show ?case by (subst (asm) create_pipes.simps) auto
next
  case (Suc k)
  then have lt: "i < n" and k: "k = n - Suc i" by auto
  obtain p w1 where p: "pipef w = (p, w1)" by (rule prod.exhaust)
  note s1 = prim_pipef [OF p]
  show ?case
  proof (cases p)
    case None
    with Suc.prems lt p have e: "w' = close_pipes (take i acc) (eprint ''pipe'' w1)"
      by (subst (asm) create_pipes.simps) simp
    from s1 prim_eprint [of w1 "''pipe''"] prim_close_pipes [of "eprint ''pipe'' w1" "take i acc"]
    show ?thesis unfolding e by (rule steps3)
  next
    case (Some q)
    with Suc.prems lt p have "create_pipes (Suc i) n (acc @ [q]) w1 = (r, w')"
      by (subst (asm) create_pipes.simps) simp
    from s1 Suc.hyps(1) [OF k this] show ?thesis by (rule rtranclp_trans)
  qed
qed

lemma prim_endpoint_in:
  "(case l_in l of None \<Rightarrow> (STDIN_FILENO, w) | Some path \<Rightarrow> openf path O_RDONLY w) = (i, w1) \<Longrightarrow>
   prim_step\<^sup>*\<^sup>* w w1"
  by (cases "l_in l") (auto dest: prim_openf)

lemma prim_endpoint_out:
  "(case l_out l of None \<Rightarrow> (STDOUT_FILENO, w)
      | Some path \<Rightarrow> openf path O_WRONLY_CREAT_TRUNC w) = (out, w1) \<Longrightarrow>
   prim_step\<^sup>*\<^sup>* w w1"
  by (cases "l_out l") (auto dest: prim_openf)

lemma prim_pipeline_setup:
  assumes s: "pipeline_setup l w = (r, w1)"
  shows "prim_step\<^sup>*\<^sup>* w w1"
proof -
  obtain pipes_ok wa where m1:
    "(if length (l_seq l) - 1 > 0 then malloc w else (True, w)) = (pipes_ok, wa)"
    by (rule prod.exhaust)
  have sa: "prim_step\<^sup>*\<^sup>* w wa" using m1 by (auto dest: prim_malloc split: if_splits)
  note t1 = s [unfolded pipeline_setup_def Let_def m1 prod.case]
  show ?thesis
  proof (cases pipes_ok)
    case False
    from t1 [unfolded if_P [OF False]] have e: "w1 = eprint ''malloc pipes'' wa" by auto
    from sa prim_eprint [of wa] show ?thesis unfolding e by (rule rtranclp_trans)
  next
    case True
    obtain cp wb where c: "create_pipes 0 (length (l_seq l) - 1) [] wa = (cp, wb)"
      by (rule prod.exhaust)
    have np: "\<not> \<not> pipes_ok" using True by simp
    note t2 = t1 [unfolded if_not_P [OF np] c prod.case]
    from sa prim_create_pipes [OF c] have sb: "prim_step\<^sup>*\<^sup>* w wb" by (rule rtranclp_trans)
    show ?thesis
    proof (cases cp)
      case None
      from t2 [unfolded None option.case] sb show ?thesis by auto
    next
      case (Some ps)
      obtain i wc where o1:
        "(case l_in l of None \<Rightarrow> (STDIN_FILENO, wb) | Some path \<Rightarrow> openf path O_RDONLY wb) = (i, wc)"
        by (rule prod.exhaust)
      from sb prim_endpoint_in [OF o1] have sc: "prim_step\<^sup>*\<^sup>* w wc" by (rule rtranclp_trans)
      note t3 = t2 [unfolded Some option.case o1 prod.case]
      show ?thesis
      proof (cases "l_in l \<noteq> None \<and> i < 0")
        case True
        from t3 [unfolded if_P [OF True]]
        have e: "w1 = close_pipes ps (eprint (the (l_in l)) wc)" by auto
        from sc prim_eprint [of wc] prim_close_pipes [of "eprint (the (l_in l)) wc" ps]
        show ?thesis unfolding e by (rule steps3)
      next
        case nin: False
        obtain out wd where o2:
          "(case l_out l of None \<Rightarrow> (STDOUT_FILENO, wc)
              | Some path \<Rightarrow> openf path O_WRONLY_CREAT_TRUNC wc) = (out, wd)"
          by (rule prod.exhaust)
        from sc prim_endpoint_out [OF o2] have sd: "prim_step\<^sup>*\<^sup>* w wd" by (rule rtranclp_trans)
        note t4 = t3 [unfolded if_not_P [OF nin] o2 prod.case]
        show ?thesis
        proof (cases "l_out l \<noteq> None \<and> out < 0")
          case True
          let ?a = "eprint (the (l_out l)) wd"
          let ?b = "if i \<noteq> STDIN_FILENO then close_fd i ?a else ?a"
          from t4 [unfolded if_P [OF True]] have e: "w1 = close_pipes ps ?b" by auto
          from sd prim_eprint [of wd] prim_close_if [of ?a] prim_close_pipes [of ?b ps]
          show ?thesis unfolding e by (rule steps4)
        next
          case nout: False
          obtain pids_ok we where m2: "malloc wd = (pids_ok, we)" by (rule prod.exhaust)
          from sd prim_malloc [OF m2] have se: "prim_step\<^sup>*\<^sup>* w we" by (rule rtranclp_trans)
          note t5 = t4 [unfolded if_not_P [OF nout] m2 prod.case]
          show ?thesis
          proof (cases pids_ok)
            case True
            have npi: "\<not> \<not> pids_ok" using True by simp
            from t5 [unfolded if_not_P [OF npi]] se show ?thesis by auto
          next
            case False
            let ?a = "eprint ''malloc pids'' we"
            let ?b = "if i \<noteq> STDIN_FILENO then close_fd i ?a else ?a"
            let ?c = "if out \<noteq> STDOUT_FILENO then close_fd out ?b else ?b"
            from t5 [unfolded if_P [OF False]] have e: "w1 = close_pipes ps ?c" by auto
            from se prim_eprint [of we] prim_close_if [of ?a] prim_close_if [of ?b]
              prim_close_pipes [of ?c ps]
            show ?thesis unfolding e by (rule steps5)
          qed
        qed
      qed
    qed
  qed
qed

lemma prim_step_quiet: "prim_step a b \<Longrightarrow> quiet a b"
  by (auto simp: prim_step_def quiet_def close_fd_def eprint_def openf_def pipef_def malloc_def Let_def)

lemma prim_steps_quiet: "prim_step\<^sup>*\<^sup>* a b \<Longrightarrow> quiet a b"
proof (induction rule: rtranclp_induct)
  case base
  show ?case by (simp add: quiet_def)
next
  case (step y z)
  from step.IH prim_step_quiet [OF step.hyps(2)] show ?case by (simp add: quiet_def)
qed

lemma quiet_calm: "quiet a b \<Longrightarrow> calm a b"
  by (simp add: quiet_def calm_def)

lemma fork_step_calm: "fork_step a b \<Longrightarrow> calm a b"
  by (auto simp: fork_step_def dest: prim_step_quiet quiet_calm)
     (auto simp: calm_def fork_def Let_def split: option.splits)

lemma fork_steps_calm: "fork_step\<^sup>*\<^sup>* a b \<Longrightarrow> calm a b"
proof (induction rule: rtranclp_induct)
  case base
  show ?case by (simp add: calm_def)
next
  case (step y z)
  from step.IH fork_step_calm [OF step.hyps(2)] show ?case by (simp add: calm_def)
qed

lemma fork_fork_step: "fork a b c d w = (p, w1) \<Longrightarrow> fork_step\<^sup>*\<^sup>* w w1"
proof -
  assume "fork a b c d w = (p, w1)"
  then have "w1 = snd (fork a b c d w)" by simp
  then have "fork_step w w1" unfolding fork_step_def by blast
  then show ?thesis by (rule r_into_rtranclp)
qed

lemma close_fork_step: "fork_step\<^sup>*\<^sup>* a (if c then close_fd fd a else a)"
proof (cases c)
  case True
  have "fork_step a (close_fd fd a)" unfolding fork_step_def prim_step_def by blast
  with True show ?thesis by (simp add: r_into_rtranclp)
next
  case False
  then show ?thesis by simp
qed

lemma eprint_fork_step: "fork_step\<^sup>*\<^sup>* a (eprint s a)"
proof -
  have "fork_step a (eprint s a)" unfolding fork_step_def prim_step_def by blast
  then show ?thesis by (rule r_into_rtranclp)
qed

lemma spawn_stages_fork_steps:
  "spawn_stages l ps out i ifd pids w = (ok, ifd', pids', w') \<Longrightarrow> fork_step\<^sup>*\<^sup>* w w'"
proof (induction "length (l_seq l) - i" arbitrary: i ifd pids w)
  case 0
  then have "\<not> i < length (l_seq l)" by simp
  with 0 show ?case by (simp add: spawn_stages_done)
next
  case (Suc n)
  then have lt: "i < length (l_seq l)" and n: "n = length (l_seq l) - Suc i" by auto
  show ?case
  proof (cases "l_seq l ! i = []")
    case True
    with Suc.prems lt show ?thesis by (auto simp: spawn_stages_empty eprint_fork_step)
  next
    case False
    obtain p w1 where f: "fork (if i = 0 then ifd else fst (ps ! (i - 1)))
        (if i = length (l_seq l) - 1 then out else snd (ps ! i))
        (l_seq l ! i ! 0) (l_seq l ! i) w = (p, w1)" by (rule prod.exhaust)
    note s1 = fork_fork_step [OF f]
    show ?thesis
    proof (cases "p < 0")
      case True
      with Suc.prems lt False f have e: "w' = eprint ''fork'' w1"
        by (simp add: spawn_stages_fork_fail)
      from s1 eprint_fork_step [of w1] show ?thesis unfolding e by (rule rtranclp_trans)
    next
      case nf: False
      let ?w2 = "if i = 0 \<and> ifd \<noteq> STDIN_FILENO then close_fd ifd w1 else w1"
      let ?w3 = "if i > 0 then close_fd (snd (ps ! (i - 1))) ?w2 else ?w2"
      from Suc.prems have r: "spawn_stages l ps out (Suc i)
          (if i = 0 \<and> ifd \<noteq> STDIN_FILENO then STDIN_FILENO else ifd) (pids[i := p]) ?w3
          = (ok, ifd', pids', w')"
        by (simp add: spawn_stages_step [OF lt False f nf] Let_def)
      from s1 close_fork_step [of w1] close_fork_step [of ?w2] Suc.hyps(1) [OF n r]
      show ?thesis by (rule steps4)
    qed
  qed
qed

lemma spawn_stages_empty_fails:
  "i \<le> k \<Longrightarrow> k < length (l_seq l) \<Longrightarrow> l_seq l ! k = [] \<Longrightarrow>
   fst (spawn_stages l ps out i ifd pids w) = False"
proof (induction "k - i" arbitrary: i ifd pids w)
  case 0
  then have "i = k" by simp
  with 0 show ?case by (simp add: spawn_stages_empty)
next
  case (Suc n)
  then have lt: "i < length (l_seq l)" and ik: "Suc i \<le> k" and n: "n = k - Suc i" by auto
  show ?case
  proof (cases "l_seq l ! i = []")
    case True
    with lt show ?thesis by (simp add: spawn_stages_empty)
  next
    case False
    obtain p w1 where f: "fork (if i = 0 then ifd else fst (ps ! (i - 1)))
        (if i = length (l_seq l) - 1 then out else snd (ps ! i))
        (l_seq l ! i ! 0) (l_seq l ! i) w = (p, w1)" by (rule prod.exhaust)
    show ?thesis
    proof (cases "p < 0")
      case True
      with lt False f show ?thesis by (simp add: spawn_stages_fork_fail)
    next
      case nf: False
      show ?thesis
        unfolding spawn_stages_step [OF lt False f nf]
        by (rule Suc.hyps(1) [OF n ik Suc.prems(2,3)])
    qed
  qed
qed

lemma fork_child:
  "fork a b c d w = (p, w1) \<Longrightarrow> \<not> p < 0 \<Longrightarrow>
   0 < p \<and> spawned w1 = spawned w @ [\<lparr>c_pid = p, c_in = a, c_out = b, c_prog = c, c_argv = d\<rparr>]"
  by (auto simp: fork_def Let_def split: option.splits)

lemma spawn_stages_children:
  "spawn_stages l ps out i ifd pids w = (True, ifd', pids', w') \<Longrightarrow>
   length pids = length (l_seq l) \<Longrightarrow> i \<le> length (l_seq l) \<Longrightarrow>
   \<exists>cs. spawned w' = spawned w @ cs \<and> map c_pid cs = drop i pids' \<and>
        map c_argv cs = drop i (l_seq l) \<and>
        map c_prog cs = map (\<lambda>a. a ! 0) (drop i (l_seq l)) \<and>
        take i pids' = take i pids \<and> length pids' = length pids"
proof (induction "length (l_seq l) - i" arbitrary: i ifd pids w)
  case 0
  then have "\<not> i < length (l_seq l)" by simp
  with 0 show ?case by (simp add: spawn_stages_done)
next
  case (Suc n)
  then have lt: "i < length (l_seq l)" and n: "n = length (l_seq l) - Suc i" by auto
  show ?case
  proof (cases "l_seq l ! i = []")
    case True
    with Suc.prems lt show ?thesis by (simp add: spawn_stages_empty)
  next
    case False
    obtain p w1 where f: "fork (if i = 0 then ifd else fst (ps ! (i - 1)))
        (if i = length (l_seq l) - 1 then out else snd (ps ! i))
        (l_seq l ! i ! 0) (l_seq l ! i) w = (p, w1)" by (rule prod.exhaust)
    show ?thesis
    proof (cases "p < 0")
      case True
      with Suc.prems lt False f show ?thesis by (simp add: spawn_stages_fork_fail)
    next
      case nf: False
      let ?c = "\<lparr>c_pid = p, c_in = (if i = 0 then ifd else fst (ps ! (i - 1))),
                 c_out = (if i = length (l_seq l) - 1 then out else snd (ps ! i)),
                 c_prog = l_seq l ! i ! 0, c_argv = l_seq l ! i\<rparr>"
      let ?w2 = "if i = 0 \<and> ifd \<noteq> STDIN_FILENO then close_fd ifd w1 else w1"
      let ?w3 = "if i > 0 then close_fd (snd (ps ! (i - 1))) ?w2 else ?w2"
      from fork_child [OF f nf] have sp1: "spawned w1 = spawned w @ [?c]" by simp
      have sp3: "spawned ?w3 = spawned w1" by (simp add: close_fd_def)
      from Suc.prems have r: "spawn_stages l ps out (Suc i)
          (if i = 0 \<and> ifd \<noteq> STDIN_FILENO then STDIN_FILENO else ifd) (pids[i := p]) ?w3
          = (True, ifd', pids', w')"
        by (simp add: spawn_stages_step [OF lt False f nf] Let_def)
      have l: "length (pids[i := p]) = length (l_seq l)" using Suc.prems(2) by simp
      from Suc.hyps(1) [OF n r l] lt
      obtain cs where cs: "spawned w' = spawned ?w3 @ cs" "map c_pid cs = drop (Suc i) pids'"
        "map c_argv cs = drop (Suc i) (l_seq l)"
        "map c_prog cs = map (\<lambda>a. a ! 0) (drop (Suc i) (l_seq l))"
        "take (Suc i) pids' = take (Suc i) (pids[i := p])" "length pids' = length (pids[i := p])"
        by auto
      have li: "i < length pids'" "i < length pids" using cs(6) Suc.prems(2) lt by simp_all
      have "pids' ! i = take (Suc i) pids' ! i" by simp
      also have "\<dots> = p" unfolding cs(5) using li(2) by simp
      finally have pi: "pids' ! i = p" .
      have "take i pids' = take i (take (Suc i) pids')" by simp
      also have "\<dots> = take i pids" unfolding cs(5) by simp
      finally have tk: "take i pids' = take i pids" .
      show ?thesis
      proof (intro exI conjI)
        show "spawned w' = spawned w @ (?c # cs)" using cs(1) sp1 sp3 by simp
        show "map c_pid (?c # cs) = drop i pids'"
          using cs(2) pi li(1) by (simp add: Cons_nth_drop_Suc [symmetric])
        show "map c_argv (?c # cs) = drop i (l_seq l)"
          using cs(3) lt by (simp add: Cons_nth_drop_Suc [symmetric])
        show "map c_prog (?c # cs) = map (\<lambda>a. a ! 0) (drop i (l_seq l))"
          using cs(4) lt by (simp add: Cons_nth_drop_Suc [symmetric])
        show "take i pids' = take i pids" by (rule tk)
        show "length pids' = length pids" using cs(6) by simp
      qed
    qed
  qed
qed

lemma add_job_from_only:
  "\<exists>g e. snd (add_job_from i p c w) = w\<lparr>g_jobs := g, stderr := e\<rparr>"
proof (induction "MAX_JOBS - i" arbitrary: i)
  case 0
  then have "snd (add_job_from i p c w) =
      w\<lparr>g_jobs := g_jobs w, stderr := stderr w @ [''jobs: job table full'' @ nl]\<rparr>"
    by (subst add_job_from.simps) (simp add: eprint_def)
  then show ?case by blast
next
  case (Suc n)
  then have lt: "i < MAX_JOBS" and n: "n = MAX_JOBS - Suc i" by auto
  show ?case
  proof (cases "job_active (g_jobs w ! i)")
    case True
    with lt have "snd (add_job_from i p c w) = snd (add_job_from (Suc i) p c w)"
      by (subst add_job_from.simps) simp
    with Suc.hyps(1) [OF n] show ?thesis by simp
  next
    case False
    with lt have "snd (add_job_from i p c w) =
       w\<lparr>g_jobs := (g_jobs w)
           [i := \<lparr>job_pid = p, job_active = True,
                  job_cmdline = snprintf_s CMDLINE_SIZE (case c of None \<Rightarrow> '''' | Some s \<Rightarrow> s)\<rparr>],
         stderr := stderr w\<rparr>"
      by (subst add_job_from.simps) simp
    then show ?thesis by blast
  qed
qed

lemma add_job_only: "\<exists>g e. snd (add_job p c w) = w\<lparr>g_jobs := g, stderr := e\<rparr>"
  unfolding add_job_def by (rule add_job_from_only)

lemma add_job_from_cong:
  "g_jobs w = g_jobs v \<Longrightarrow>
   fst (add_job_from i p c w) = fst (add_job_from i p c v) \<and>
   g_jobs (snd (add_job_from i p c w)) = g_jobs (snd (add_job_from i p c v))"
proof (induction "MAX_JOBS - i" arbitrary: i)
  case 0
  then have lt: "\<not> i < MAX_JOBS" by simp
  have a: "add_job_from i p c w = (- 1, eprint (''jobs: job table full'' @ nl) w)"
    using lt by (subst add_job_from.simps) simp
  have b: "add_job_from i p c v = (- 1, eprint (''jobs: job table full'' @ nl) v)"
    using lt by (subst add_job_from.simps) simp
  from 0 show ?case unfolding a b by (simp add: eprint_def)
next
  case (Suc n)
  then have lt: "i < MAX_JOBS" and n: "n = MAX_JOBS - Suc i" by auto
  have a: "add_job_from i p c w = (if \<not> job_active (g_jobs w ! i) then
           (int i,
            w\<lparr>g_jobs := (g_jobs w)
                [i := \<lparr>job_pid = p, job_active = True,
                       job_cmdline = snprintf_s CMDLINE_SIZE
                         (case c of None \<Rightarrow> '''' | Some s \<Rightarrow> s)\<rparr>]\<rparr>)
         else add_job_from (Suc i) p c w)"
    using lt by (subst add_job_from.simps) simp
  have b: "add_job_from i p c v = (if \<not> job_active (g_jobs v ! i) then
           (int i,
            v\<lparr>g_jobs := (g_jobs v)
                [i := \<lparr>job_pid = p, job_active = True,
                       job_cmdline = snprintf_s CMDLINE_SIZE
                         (case c of None \<Rightarrow> '''' | Some s \<Rightarrow> s)\<rparr>]\<rparr>)
         else add_job_from (Suc i) p c v)"
    using lt by (subst add_job_from.simps) simp
  from Suc.hyps(1) [OF n Suc.prems] Suc.prems show ?case unfolding a b by simp
qed

lemma add_job_cong:
  "g_jobs w = g_jobs v \<Longrightarrow> g_jobs (snd (add_job p c w)) = g_jobs (snd (add_job p c v))"
  unfolding add_job_def using add_job_from_cong [of w v 0 p c] by blast

lemma exec_step_hushed: "exec_step a b \<Longrightarrow> hushed a b"
proof -
  assume "exec_step a b"
  then consider "fork_step a b" | p where "b = waitpid_block p a"
    | p c where "b = snd (add_job p c a)" unfolding exec_step_def by blast
  then show ?thesis
  proof cases
    case 1
    from fork_step_calm [OF 1] show ?thesis by (simp add: calm_def hushed_def)
  next
    case 2
    then show ?thesis by (simp add: hushed_def waitpid_block_def)
  next
    case 3
    from add_job_only [of p c a] obtain g e where "snd (add_job p c a) = a\<lparr>g_jobs := g, stderr := e\<rparr>"
      by blast
    with 3 show ?thesis by (simp add: hushed_def)
  qed
qed

lemma exec_steps_hushed: "exec_step\<^sup>*\<^sup>* a b \<Longrightarrow> hushed a b"
proof (induction rule: rtranclp_induct)
  case base
  show ?case by (simp add: hushed_def)
next
  case (step y z)
  from step.IH exec_step_hushed [OF step.hyps(2)] show ?case by (simp add: hushed_def)
qed

lemma prim_exec: "prim_step\<^sup>*\<^sup>* a b \<Longrightarrow> exec_step\<^sup>*\<^sup>* a b"
proof (induction rule: rtranclp_induct)
  case base
  show ?case by simp
next
  case (step y z)
  have "exec_step y z" using step.hyps(2) by (simp add: exec_step_def fork_step_def)
  with step.IH show ?case by (rule rtranclp.rtrancl_into_rtrancl)
qed

lemma fork_exec: "fork_step\<^sup>*\<^sup>* a b \<Longrightarrow> exec_step\<^sup>*\<^sup>* a b"
proof (induction rule: rtranclp_induct)
  case base
  show ?case by simp
next
  case (step y z)
  have "exec_step y z" using step.hyps(2) by (simp add: exec_step_def)
  with step.IH show ?case by (rule rtranclp.rtrancl_into_rtrancl)
qed

lemma wait_exec: "exec_step\<^sup>*\<^sup>* a (waitpid_block p a)"
proof -
  have "exec_step a (waitpid_block p a)" unfolding exec_step_def by blast
  then show ?thesis by (rule r_into_rtranclp)
qed

lemma add_job_exec: "exec_step\<^sup>*\<^sup>* a (snd (add_job p c a))"
proof -
  have "exec_step a (snd (add_job p c a))" unfolding exec_step_def by blast
  then show ?thesis by (rule r_into_rtranclp)
qed

lemma wait_all_exec: "exec_step\<^sup>*\<^sup>* a (wait_all ps a)"
proof (induction ps arbitrary: a)
  case Nil
  show ?case by simp
next
  case (Cons p ps)
  from wait_exec [of a p] Cons [of "waitpid_block p a"]
  have "exec_step\<^sup>*\<^sup>* a (wait_all ps (waitpid_block p a))" by (rule rtranclp_trans)
  then show ?case by simp
qed

lemma reap_forked_exec: "exec_step\<^sup>*\<^sup>* a (reap_forked ps a)"
proof (induction ps arbitrary: a)
  case Nil
  show ?case by simp
next
  case (Cons p ps)
  show ?case
  proof (cases "p > 0")
    case True
    from wait_exec [of a p] Cons [of "waitpid_block p a"]
    have "exec_step\<^sup>*\<^sup>* a (reap_forked ps (waitpid_block p a))" by (rule rtranclp_trans)
    with True show ?thesis by simp
  next
    case False
    with Cons [of a] show ?thesis by simp
  qed
qed

lemma close_exec: "exec_step\<^sup>*\<^sup>* a (if c then close_fd fd a else a)"
  by (rule prim_exec) (rule prim_close_if)

lemma pipe_fail_exec: "pipe_fail ps i out pids w = (r, w') \<Longrightarrow> exec_step\<^sup>*\<^sup>* w w'"
proof -
  let ?w1 = "close_pipes ps w"
  let ?w2 = "if i \<noteq> STDIN_FILENO then close_fd i ?w1 else ?w1"
  let ?w3 = "if out \<noteq> STDOUT_FILENO then close_fd out ?w2 else ?w2"
  assume "pipe_fail ps i out pids w = (r, w')"
  then have e: "w' = reap_forked pids ?w3" by (auto simp: pipe_fail_def Let_def)
  from prim_exec [OF prim_close_pipes [of w ps]] close_exec [of ?w1] close_exec [of ?w2]
    reap_forked_exec [of ?w3 pids]
  show ?thesis unfolding e by (rule steps4)
qed

lemma pipeline_finish_exec: "pipeline_finish l ps out pids w = (r, w') \<Longrightarrow> exec_step\<^sup>*\<^sup>* w w'"
proof -
  let ?w1 = "close_pipes ps w"
  let ?w2 = "if out \<noteq> STDOUT_FILENO then close_fd out ?w1 else ?w1"
  assume "pipeline_finish l ps out pids w = (r, w')"
  then have e: "w' = (if \<not> l_bg l then wait_all pids ?w2
                     else snd (add_job (pids ! 0) (Some (g_last_cmdline ?w2)) ?w2))"
    by (auto simp: pipeline_finish_def Let_def)
  have "exec_step\<^sup>*\<^sup>* ?w2 w'" unfolding e by (simp add: wait_all_exec add_job_exec)
  with prim_exec [OF prim_close_pipes [of w ps]] close_exec [of ?w1]
  show ?thesis by (rule steps3)
qed

lemma execute_pipeline_exec: "exec_step\<^sup>*\<^sup>* w (snd (execute_pipeline l w))"
proof -
  obtain r w' where e: "execute_pipeline l w = (r, w')" by (rule prod.exhaust)
  from e have "exec_step\<^sup>*\<^sup>* w w'"
  proof (cases rule: execute_pipeline_cases)
    case setup_failed
    from prim_exec [OF prim_pipeline_setup [OF setup_failed(1)]] show ?thesis .
  next
    case (spawn_failed ps i out w1 i1 pids w2)
    from prim_exec [OF prim_pipeline_setup [OF spawn_failed(1)]]
      fork_exec [OF spawn_stages_fork_steps [OF spawn_failed(2)]]
      pipe_fail_exec [OF spawn_failed(3)]
    show ?thesis by (rule steps3)
  next
    case (finished ps i out w1 i1 pids w2)
    from prim_exec [OF prim_pipeline_setup [OF finished(1)]]
      fork_exec [OF spawn_stages_fork_steps [OF finished(2)]]
      pipeline_finish_exec [OF finished(3)]
    show ?thesis by (rule steps3)
  qed
  with e show ?thesis by simp
qed

lemma eprint_exec: "exec_step\<^sup>*\<^sup>* a (eprint s a)"
  by (rule prim_exec) (rule prim_eprint)

lemma execute_command_unfold:
  assumes a: "\<not> (cmd = None \<or> args = None \<or> the args = [])"
    and f: "fork i out (the cmd) (the args) w = (p, w1)"
  shows "execute_command cmd args i out bgf w =
     (if p < 0 then
               (let w2 = eprint ''fork'' w1;
                    w3 = (if i \<noteq> STDIN_FILENO then close_fd i w2 else w2);
                    w4 = (if out \<noteq> STDOUT_FILENO then close_fd out w3 else w3)
                in (EXIT_FAILURE, w4))
             else
               (let w2 = (if i \<noteq> STDIN_FILENO then close_fd i w1 else w1);
                    w3 = (if out \<noteq> STDOUT_FILENO then close_fd out w2 else w2);
                    w4 = (if \<not> bgf then waitpid_block p w3
                          else snd (add_job p (Some (g_last_cmdline w3)) w3))
                in (EXIT_SUCCESS, w4)))"
  unfolding execute_command_def if_not_P [OF a] f prod.case ..

lemma execute_command_exec: "exec_step\<^sup>*\<^sup>* w (snd (execute_command cmd args i out bgf w))"
proof (cases "cmd = None \<or> args = None \<or> the args = []")
  case True
  then show ?thesis by (simp add: execute_command_def)
next
  case False
  obtain p w1 where f: "fork i out (the cmd) (the args) w = (p, w1)" by (rule prod.exhaust)
  note s1 = fork_exec [OF fork_fork_step [OF f]]
  show ?thesis
  proof (cases "p < 0")
    case True
    let ?w2 = "eprint ''fork'' w1"
    let ?w3 = "if i \<noteq> STDIN_FILENO then close_fd i ?w2 else ?w2"
    let ?w4 = "if out \<noteq> STDOUT_FILENO then close_fd out ?w3 else ?w3"
    have e: "snd (execute_command cmd args i out bgf w) = ?w4"
      unfolding execute_command_unfold [OF False f] if_P [OF True] Let_def snd_conv ..
    from s1 eprint_exec [of w1] close_exec [of ?w2] close_exec [of ?w3]
    show ?thesis unfolding e by (rule steps4)
  next
    case nf: False
    let ?w2 = "if i \<noteq> STDIN_FILENO then close_fd i w1 else w1"
    let ?w3 = "if out \<noteq> STDOUT_FILENO then close_fd out ?w2 else ?w2"
    let ?w4 = "if \<not> bgf then waitpid_block p ?w3
               else snd (add_job p (Some (g_last_cmdline ?w3)) ?w3)"
    have e: "snd (execute_command cmd args i out bgf w) = ?w4"
      unfolding execute_command_unfold [OF False f] if_not_P [OF nf] Let_def snd_conv ..
    have "exec_step\<^sup>*\<^sup>* ?w3 ?w4" by (simp add: wait_exec add_job_exec)
    with s1 close_exec [of w1] close_exec [of ?w2]
    show ?thesis unfolding e by (rule steps4)
  qed
qed

lemma execute_single_unfold:
  assumes ne: "l_seq l ! 0 \<noteq> []" and nj: "l_seq l ! 0 ! 0 \<noteq> ''jobs''"
    and o1: "(case l_in l of None \<Rightarrow> (STDIN_FILENO, w) | Some path \<Rightarrow> openf path O_RDONLY w) = (i, wc)"
  shows "execute_single l w =
     (if l_in l \<noteq> None \<and> i < 0 then (EXIT_FAILURE, eprint (the (l_in l)) wc)
      else
        (case (case l_out l of None \<Rightarrow> (STDOUT_FILENO, wc)
                             | Some path \<Rightarrow> openf path O_WRONLY_CREAT_TRUNC wc) of
           (out_fd, w2) \<Rightarrow>
             if l_out l \<noteq> None \<and> out_fd < 0 then
               (let w3 = eprint (the (l_out l)) w2;
                    w4 = (if i \<noteq> STDIN_FILENO then close_fd i w3 else w3)
                in (EXIT_FAILURE, w4))
             else execute_command (Some (l_seq l ! 0 ! 0)) (Some (l_seq l ! 0)) i out_fd (l_bg l) w2))"
  unfolding execute_single_def Let_def if_not_P [OF ne] if_not_P [OF nj] o1 prod.case ..

lemma execute_single_exec:
  assumes ne: "l_seq l ! 0 \<noteq> []" and nj: "l_seq l ! 0 ! 0 \<noteq> ''jobs''"
  shows "exec_step\<^sup>*\<^sup>* w (snd (execute_single l w))"
proof -
  obtain i wc where o1:
    "(case l_in l of None \<Rightarrow> (STDIN_FILENO, w) | Some path \<Rightarrow> openf path O_RDONLY w) = (i, wc)"
    by (rule prod.exhaust)
  note e1 = execute_single_unfold [OF ne nj o1]
  note sc = prim_exec [OF prim_endpoint_in [OF o1]]
  show ?thesis
  proof (cases "l_in l \<noteq> None \<and> i < 0")
    case True
    from sc eprint_exec [of wc] show ?thesis unfolding e1 if_P [OF True] snd_conv
      by (rule rtranclp_trans)
  next
    case nin: False
    obtain out wd where o2:
      "(case l_out l of None \<Rightarrow> (STDOUT_FILENO, wc)
          | Some path \<Rightarrow> openf path O_WRONLY_CREAT_TRUNC wc) = (out, wd)"
      by (rule prod.exhaust)
    note sd = prim_exec [OF prim_endpoint_out [OF o2]]
    note e2 = e1 [unfolded if_not_P [OF nin] o2 prod.case]
    show ?thesis
    proof (cases "l_out l \<noteq> None \<and> out < 0")
      case True
      let ?a = "eprint (the (l_out l)) wd"
      from sc sd eprint_exec [of wd] close_exec [of ?a]
      show ?thesis unfolding e2 if_P [OF True] Let_def snd_conv by (rule steps4)
    next
      case nout: False
      from sc sd execute_command_exec
      show ?thesis unfolding e2 if_not_P [OF nout] by (rule steps3)
    qed
  qed
qed

lemma exit_codes_differ [simp]: "EXIT_SUCCESS \<noteq> EXIT_FAILURE" "EXIT_FAILURE \<noteq> EXIT_SUCCESS"
  by (simp_all add: EXIT_SUCCESS_def EXIT_FAILURE_def)

lemma pipe_fail_code: "fst (pipe_fail ps i out pids w) = EXIT_FAILURE"
  by (simp add: pipe_fail_def Let_def)

lemma execute_pipeline_success:
  assumes e: "execute_pipeline l w = (EXIT_SUCCESS, w')" and n: "0 < length (l_seq l)"
  shows "\<exists>cs. spawned w' = spawned w @ cs \<and>
              map c_argv cs = l_seq l \<and> map c_prog cs = map (\<lambda>a. a ! 0) (l_seq l) \<and>
              (l_bg l \<longrightarrow>
                 g_jobs w' = g_jobs (snd (add_job (c_pid (hd cs)) (Some (g_last_cmdline w)) w)) \<and>
                 waited w' = waited w)"
  using e
proof (cases rule: execute_pipeline_cases)
  case setup_failed
  then show ?thesis by simp
next
  case (spawn_failed ps i out w1 i1 pids w2)
  with pipe_fail_code [of ps i1 out pids w2] show ?thesis by simp
next
  case (finished ps i out w1 i1 pids w2)
  from prim_steps_quiet [OF prim_pipeline_setup [OF finished(1)]] have q1: "quiet w w1" .
  from fork_steps_calm [OF spawn_stages_fork_steps [OF finished(2)]] have c2: "calm w1 w2" .
  from spawn_stages_children [OF finished(2)]
  obtain cs where cs: "spawned w2 = spawned w1 @ cs" "map c_pid cs = pids"
    "map c_argv cs = l_seq l" "map c_prog cs = map (\<lambda>a. a ! 0) (l_seq l)" by auto
  let ?x1 = "close_pipes ps w2"
  let ?x2 = "if out \<noteq> STDOUT_FILENO then close_fd out ?x1 else ?x1"
  have "prim_step\<^sup>*\<^sup>* w2 ?x2"
    using prim_close_pipes [of w2 ps] prim_close_if [of ?x1] by (rule rtranclp_trans)
  from prim_steps_quiet [OF this] have q3: "quiet w2 ?x2" .
  from finished(3) have w': "w' = (if \<not> l_bg l then wait_all pids ?x2
                     else snd (add_job (pids ! 0) (Some (g_last_cmdline ?x2)) ?x2))"
    by (auto simp: pipeline_finish_def Let_def)
  have sp: "spawned w' = spawned ?x2"
  proof (cases "l_bg l")
    case True
    from add_job_only [of "pids ! 0" "Some (g_last_cmdline ?x2)" ?x2] obtain g e where
      "snd (add_job (pids ! 0) (Some (g_last_cmdline ?x2)) ?x2) = ?x2\<lparr>g_jobs := g, stderr := e\<rparr>"
      by blast
    with True w' show ?thesis by simp
  next
    case False
    have "\<And>v. spawned (wait_all pids v) = spawned v"
      by (induction pids) (simp_all add: waitpid_block_def)
    with False w' show ?thesis by simp
  qed
  from cs(3) n have ne: "cs \<noteq> []" by auto
  with cs(2) have hd: "pids ! 0 = c_pid (hd cs)" by (cases cs) auto
  show ?thesis
  proof (intro exI conjI impI)
    show "spawned w' = spawned w @ cs" using sp q3 cs(1) q1 by (simp add: quiet_def)
    show "map c_argv cs = l_seq l" by (rule cs(3))
    show "map c_prog cs = map (\<lambda>a. a ! 0) (l_seq l)" by (rule cs(4))
  next
    assume bg: "l_bg l"
    have gl: "g_last_cmdline ?x2 = g_last_cmdline w" and gj: "g_jobs ?x2 = g_jobs w"
      and wt: "waited ?x2 = waited w"
      using q1 c2 q3 by (simp_all add: quiet_def calm_def)
    from bg w' have e: "w' = snd (add_job (c_pid (hd cs)) (Some (g_last_cmdline w)) ?x2)"
      by (simp add: hd gl)
    show "g_jobs w' = g_jobs (snd (add_job (c_pid (hd cs)) (Some (g_last_cmdline w)) w))"
      unfolding e by (rule add_job_cong [OF gj])
    from add_job_only [of "c_pid (hd cs)" "Some (g_last_cmdline w)" ?x2] obtain g e' where
      "snd (add_job (c_pid (hd cs)) (Some (g_last_cmdline w)) ?x2) = ?x2\<lparr>g_jobs := g, stderr := e'\<rparr>"
      by blast
    with e wt show "waited w' = waited w" by simp
  qed
qed

lemma reap_finished_jobs_env: "same_env w (reap_finished_jobs w)"
  by (simp add: reap_finished_jobs_def reap_from_env)

lemma execute_pipeline_path:
  assumes "2 \<le> length (l_seq l)"
  shows "execute (Some l) w = execute_pipeline l (reap_finished_jobs w)"
proof -
  from assms have a: "\<not> length (l_seq l) = 0" and b: "\<not> length (l_seq l) = 1" by auto
  show ?thesis
    unfolding execute_def option.case Let_def if_not_P [OF a] if_not_P [OF b] ..
qed

lemma execute_pipeline_empty_stage:
  assumes "[] \<in> set (l_seq l)"
  shows "fst (execute_pipeline l w) = EXIT_FAILURE"
proof -
  from assms obtain k where k: "k < length (l_seq l)" "l_seq l ! k = []"
    by (auto simp: in_set_conv_nth)
  obtain r w' where e: "execute_pipeline l w = (r, w')" by (rule prod.exhaust)
  from e have "r = EXIT_FAILURE"
  proof (cases rule: execute_pipeline_cases)
    case setup_failed
    then show ?thesis by simp
  next
    case (spawn_failed ps i out w1 i1 pids w2)
    with pipe_fail_code [of ps i1 out pids w2] show ?thesis by simp
  next
    case (finished ps i out w1 i1 pids w2)
    from spawn_stages_empty_fails [OF _ k, of 0 ps out i "map (heap_junk w1) [0..<length (l_seq l)]" w1]
      finished(2)
    show ?thesis by simp
  qed
  with e show ?thesis by simp
qed

lemma add_job_from_jobs_cases:
  "g_jobs (snd (add_job_from i p c w)) = g_jobs w \<or>
   (\<exists>k<MAX_JOBS. \<not> job_active (g_jobs w ! k) \<and>
      g_jobs (snd (add_job_from i p c w)) =
        (g_jobs w)[k := \<lparr>job_pid = p, job_active = True,
                         job_cmdline = take 255 (case c of None \<Rightarrow> '''' | Some s \<Rightarrow> s)\<rparr>])"
proof (induction "MAX_JOBS - i" arbitrary: i)
  case 0
  then have "g_jobs (snd (add_job_from i p c w)) = g_jobs w"
    by (subst add_job_from.simps) (simp add: eprint_def)
  then show ?case by blast
next
  case (Suc n)
  then have lt: "i < MAX_JOBS" and n: "n = MAX_JOBS - Suc i" by auto
  show ?case
  proof (cases "job_active (g_jobs w ! i)")
    case True
    with lt have "snd (add_job_from i p c w) = snd (add_job_from (Suc i) p c w)"
      by (subst add_job_from.simps) simp
    with Suc.hyps(1) [OF n] show ?thesis by simp
  next
    case False
    with lt have "g_jobs (snd (add_job_from i p c w)) =
       (g_jobs w)[i := \<lparr>job_pid = p, job_active = True,
                  job_cmdline = take 255 (case c of None \<Rightarrow> '''' | Some s \<Rightarrow> s)\<rparr>]"
      by (subst add_job_from.simps) (simp add: snprintf_s_def CMDLINE_SIZE_def)
    with lt False show ?thesis by blast
  qed
qed

lemma print_jobs_prints:
  assumes len: "length (g_jobs w) = MAX_JOBS"
  shows "stdout (print_jobs w) \<noteq> stdout w"
proof -
  let ?r = "reap_finished_jobs w"
  from reap_finished_jobs_env [of w] len
  have lr: "length (g_jobs ?r) = MAX_JOBS" and so: "stdout ?r = stdout w"
    by (simp_all add: same_env_def)
  have pf: "print_from 0 False ?r =
     (filter job_active (g_jobs ?r) \<noteq> [],
      ?r\<lparr>stdout := stdout ?r @ map job_line (filter job_active (g_jobs ?r))\<rparr>)"
    using print_from_eq [OF lr, of 0 False] by simp
  show ?thesis by (simp add: print_jobs_def pf print_def so)
qed

lemma execute_single_path:
  assumes "length (l_seq l) = 1"
  shows "execute (Some l) w = execute_single l (reap_finished_jobs w)"
proof -
  from assms have a: "\<not> length (l_seq l) = 0" by simp
  show ?thesis
    unfolding execute_def option.case Let_def if_not_P [OF a] if_P [OF assms] ..
qed

lemma execute_stdout:
  assumes "\<not> (\<exists>argv. l_seq l = [argv] \<and> argv \<noteq> [] \<and> argv ! 0 = ''jobs'')"
  shows "stdout (snd (execute (Some l) w)) = stdout w"
proof -
  let ?r = "reap_finished_jobs w"
  from reap_finished_jobs_env [of w] have so: "stdout ?r = stdout w" by (simp add: same_env_def)
  consider "length (l_seq l) = 0" | "length (l_seq l) = 1" | "2 \<le> length (l_seq l)" by linarith
  then show ?thesis
  proof cases
    case 1
    then show ?thesis by (simp add: execute_def so)
  next
    case 2
    then obtain argv where a: "l_seq l = [argv]" by (cases "l_seq l") auto
    show ?thesis
    proof (cases "argv = []")
      case True
      with a 2 so show ?thesis by (simp add: execute_single_path execute_single_def)
    next
      case False
      with assms a have "l_seq l ! 0 \<noteq> []" "l_seq l ! 0 ! 0 \<noteq> ''jobs''" by simp_all
      from exec_steps_hushed [OF execute_single_exec [OF this, of ?r]] so
      show ?thesis by (simp add: execute_single_path [OF 2] hushed_def)
    qed
  next
    case 3
    from exec_steps_hushed [OF execute_pipeline_exec [of ?r l]] so
    show ?thesis by (simp add: execute_pipeline_path [OF 3] hushed_def)
  qed
qed

lemma single_stage_refines:
  assumes s: "l_seq l = [argv]" and ne: "argv \<noteq> []" and nj: "argv ! 0 \<noteq> ''jobs''"
    and s0: "STDIN_FILENO \<in> set (fds w)"
  shows "execute_single l w =
     (case resolve_end_redirections l w of
        (None, w1) \<Rightarrow> (EXIT_FAILURE, w1)
      | (Some (i, out), w1) \<Rightarrow>
          execute_command (case argv of [] \<Rightarrow> None | a # _ \<Rightarrow> Some a) (Some argv)
            i out (l_bg l) w1)"
proof -
  obtain a0 rest where av: "argv = a0 # rest" using ne by (cases argv) auto
  have ne': "l_seq l ! 0 \<noteq> []" and nj': "l_seq l ! 0 ! 0 \<noteq> ''jobs''" using s ne nj by simp_all
  obtain i wc where o1:
    "(case l_in l of None \<Rightarrow> (STDIN_FILENO, w) | Some path \<Rightarrow> openf path O_RDONLY w) = (i, wc)"
    by (rule prod.exhaust)
  note e1 = execute_single_unfold [OF ne' nj' o1]
  note ic = endpoint_in_cases [OF o1 s0]
  show ?thesis
  proof (cases "l_in l \<noteq> None \<and> i < 0")
    case True
    then obtain path where pa: "l_in l = Some path" by auto
    with o1 True show ?thesis unfolding e1 if_P [OF True]
      by (simp add: resolve_end_redirections_def)
  next
    case nin: False
    have r1: "(case l_in l of
              None \<Rightarrow> (Some STDIN_FILENO, w)
            | Some path \<Rightarrow>
                (case openf path O_RDONLY w of
                   (fd, w1) \<Rightarrow> if fd < 0 then (None, eprint path w1) else (Some fd, w1))) = (Some i, wc)"
      using o1 nin by (cases "l_in l") (auto split: prod.splits)
    have ci: "(l_in l \<noteq> None) = (i \<noteq> STDIN_FILENO)" using ic nin by auto
    obtain out wd where o2:
      "(case l_out l of None \<Rightarrow> (STDOUT_FILENO, wc)
          | Some path \<Rightarrow> openf path O_WRONLY_CREAT_TRUNC wc) = (out, wd)"
      by (rule prod.exhaust)
    note e2 = e1 [unfolded if_not_P [OF nin] o2 prod.case]
    show ?thesis
    proof (cases "l_out l \<noteq> None \<and> out < 0")
      case True
      then obtain path where pa: "l_out l = Some path" by auto
      with o2 True ci show ?thesis unfolding e2 if_P [OF True] Let_def
        by (simp add: resolve_end_redirections_def r1)
    next
      case nout: False
      have "resolve_end_redirections l w = (Some (i, out), wd)"
        using o2 nout unfolding resolve_end_redirections_def r1 prod.case option.case
        by (cases "l_out l") (auto split: prod.splits)
      then show ?thesis unfolding e2 if_not_P [OF nout] using s av by simp
    qed
  qed
qed

lemma openf_bound:
  "openf path fl w = (fd, w') \<Longrightarrow>
   set (fds w) \<subseteq> set (fds w') \<and> set (fds w') \<subseteq> insert fd (set (fds w))"
  by (auto dest: openf_cases)


section \<open>The claims about the executor\<close>

subsection \<open>Descriptors\<close>




subsection \<open>Failure while forking\<close>

text \<open>
  Claim C2 says that after a failed \<^verbatim>\<open>fork\<close> the blocking wait is made on the process
  ids already spawned and on no other. The array \<^verbatim>\<open>pids\<close> is allocated with
  \<^verbatim>\<open>malloc\<close> and never initialised, and the loop at \<^verbatim>\<open>PIPE_FAIL\<close> reads all of its
  entries. In \<open>w_stale\<close> the block holds the number 77, the process id of a running
  background job, and the second \<^verbatim>\<open>fork\<close> of a pipeline of two stages fails: the
  one child spawned is 101, and the shell waits for 101 and then for 77. The job is
  reaped by that wait while its slot in the table stays active.
\<close>

theorem execute_waits_on_stale_pid:
  "fst (execute (Some l_two) w_stale) = EXIT_FAILURE \<and>
   map c_pid (spawned (snd (execute (Some l_two) w_stale))) = [101] \<and>
   waited (snd (execute (Some l_two) w_stale)) = [101, 77] \<and>
   procs w_stale 77 = Some Running \<and>
   procs (snd (execute (Some l_two) w_stale)) 77 = None \<and>
   job_active (g_jobs (snd (execute (Some l_two) w_stale)) ! 0)"
  by code_simp

subsection \<open>Empty stages\<close>

text \<open>
  Claim C3 says that a stage with an empty argument vector makes \<^verbatim>\<open>execute\<close> fail for
  every length of the pipeline. A command line that is one empty stage returns success.
\<close>

theorem execute_single_empty_stage_counterexample:
  "l_seq l_empty = [[]] \<and> fst (execute (Some l_empty) w_idle) = EXIT_SUCCESS"
  by code_simp

text \<open>
  Claim C3 as the code has it. In a pipeline of two or more stages an empty stage at any
  position makes \<^verbatim>\<open>execute\<close> return failure, whatever the environment does. A command
  line that consists of one empty stage is a success that does nothing after the reap.
\<close>

theorem empty_stage_fails_in_pipeline_only:
  "(2 \<le> length (l_seq l) \<and> [] \<in> set (l_seq l) \<longrightarrow> fst (execute (Some l) w) = EXIT_FAILURE) \<and>
   (l_seq l = [[]] \<longrightarrow> execute (Some l) w = (EXIT_SUCCESS, reap_finished_jobs w))"
proof (intro conjI impI)
  assume a: "2 \<le> length (l_seq l) \<and> [] \<in> set (l_seq l)"
  then have "execute (Some l) w = execute_pipeline l (reap_finished_jobs w)"
    by (simp add: execute_pipeline_path)
  with a show "fst (execute (Some l) w) = EXIT_FAILURE"
    by (simp add: execute_pipeline_empty_stage)
next
  assume "l_seq l = [[]]"
  then show "execute (Some l) w = (EXIT_SUCCESS, reap_finished_jobs w)"
    by (simp add: execute_def execute_single_def Let_def)
qed

text \<open>An empty stage between two commands, and the empty stage alone.\<close>

theorem empty_stage_fails_in_pipeline_only_witness:
  "fst (execute (Some l_gap) w_idle) = EXIT_FAILURE \<and>
   execute (Some l_empty) w_idle = (EXIT_SUCCESS, reap_finished_jobs w_idle)"
  using empty_stage_fails_in_pipeline_only [of l_gap w_idle]
        empty_stage_fails_in_pipeline_only [of l_empty w_idle]
  by (simp add: l_gap_def l_empty_def)

subsection \<open>Background pipelines\<close>




subsection \<open>One stage\<close>

text \<open>
  Claim C8 says that no stage is a no-op and that one stage other than the builtin behaves
  as resolving the redirections and calling the single-command executor. With no stage
  \<^verbatim>\<open>execute\<close> still reaps: in \<open>w_live\<close> slot 0, whose process has terminated, is
  cleared. For the empty stage with an output path the specification's two steps open
  (and truncate) the file; \<^verbatim>\<open>execute\<close> returns before it opens anything. In a shell
  started with its standard input closed the input file is opened as descriptor 0; when
  the output file cannot be opened then, the specification closes what was opened, and
  \<^verbatim>\<open>execute\<close>, which takes descriptor 0 for no redirection, leaves it open.
\<close>

theorem single_stage_delegation_counterexample:
  "job_active (g_jobs w_live ! 0) \<and>
   \<not> job_active (g_jobs (snd (execute (Some (l_empty\<lparr>l_seq := []\<rparr>)) w_live)) ! 0) \<and>
   open_calls (snd (execute (Some l_empty) w_idle)) = [] \<and>
   open_calls (snd (single_command_spec l_empty w_idle)) = [(''out.txt'', O_WRONLY_CREAT_TRUNC)] \<and>
   fds w_no_stdin_out_fails = [1, 2] \<and>
   fds (snd (execute (Some l_cat) w_no_stdin_out_fails)) = [1, 2, 0] \<and>
   fds (snd (single_command_spec l_cat w_no_stdin_out_fails)) = [1, 2]"
  by code_simp

text \<open>
  Claim C8 as the code has it. With no stage \<^verbatim>\<open>execute\<close> reaps and returns success.
  With one stage that is not empty and not the builtin, in a shell whose standard input is
  open, \<^verbatim>\<open>execute\<close> is the reap followed by the two steps of the specification:
  result and world are equal. With one empty stage it reaps and returns success, and the
  redirections are not resolved.
\<close>

theorem single_stage_delegates_unless_empty:
  "(l_seq l = [] \<longrightarrow> execute (Some l) w = (EXIT_SUCCESS, reap_finished_jobs w)) \<and>
   (l_seq l = [argv] \<and> argv \<noteq> [] \<and> argv ! 0 \<noteq> ''jobs'' \<and> STDIN_FILENO \<in> set (fds w) \<longrightarrow>
      execute (Some l) w = single_command_spec l w) \<and>
   (l_seq l = [[]] \<longrightarrow> execute (Some l) w = (EXIT_SUCCESS, reap_finished_jobs w))"
proof (intro conjI impI)
  assume "l_seq l = []"
  then show "execute (Some l) w = (EXIT_SUCCESS, reap_finished_jobs w)"
    by (simp add: execute_def)
next
  assume a: "l_seq l = [argv] \<and> argv \<noteq> [] \<and> argv ! 0 \<noteq> ''jobs'' \<and> STDIN_FILENO \<in> set (fds w)"
  then have s0: "STDIN_FILENO \<in> set (fds (reap_finished_jobs w))" by simp
  from a have l1: "length (l_seq l) = 1" by simp
  from a have z: "l_seq l ! 0 = argv" by simp
  from a single_stage_refines [OF _ _ _ s0, of l argv]
  show "execute (Some l) w = single_command_spec l w"
    unfolding execute_single_path [OF l1] single_command_spec_def Let_def z by blast
next
  assume "l_seq l = [[]]"
  then show "execute (Some l) w = (EXIT_SUCCESS, reap_finished_jobs w)"
    by (simp add: execute_def execute_single_def Let_def)
qed

text \<open>A command with both redirections, and the empty stage.\<close>

theorem single_stage_delegates_unless_empty_witness:
  "execute (Some l_cat) w_idle = single_command_spec l_cat w_idle \<and>
   execute (Some l_empty) w_idle = (EXIT_SUCCESS, reap_finished_jobs w_idle)"
  using single_stage_delegates_unless_empty
          [where l = l_cat and argv = "[''cat'', ''-n'']" and w = w_idle]
        single_stage_delegates_unless_empty [where l = l_empty and argv = "[]" and w = w_idle]
  by (simp add: l_cat_def l_empty_def w_idle_def STDIN_FILENO_def)

subsection \<open>The single-command executor\<close>

text \<open>
  Claim C9 says that the parent closes both descriptors it was given, the defaults
  included. Called with the standard input and the standard output, \<^verbatim>\<open>execute_command\<close>
  leaves both open.
\<close>

theorem execute_command_keeps_defaults_counterexample:
  "STDIN_FILENO \<in> set (fds (snd (execute_command (Some ''ls'') (Some [''ls''])
      STDIN_FILENO STDOUT_FILENO False w_idle))) \<and>
   STDOUT_FILENO \<in> set (fds (snd (execute_command (Some ''ls'') (Some [''ls''])
      STDIN_FILENO STDOUT_FILENO False w_idle)))"
  by code_simp

text \<open>
  Claim C9 as the code has it. For a program with a non-empty argument vector, the
  descriptors open after \<^verbatim>\<open>execute_command\<close> are those open before without the input
  descriptor, unless that is the standard input, and without the output descriptor, unless
  that is the standard output; this holds when \<^verbatim>\<open>fork\<close> succeeds and when it fails. When
  it fails the result is failure and no child exists that did not exist before; when it
  succeeds the result is success.
\<close>

theorem execute_command_closes_unless_default:
  assumes c: "cmd = Some prog" and a: "args = Some (a0 # rest)"
  shows "fds (snd (execute_command cmd args i out bgf w)) =
           filter (\<lambda>fd. \<not> (fd = i \<and> i \<noteq> STDIN_FILENO) \<and> \<not> (fd = out \<and> out \<noteq> STDOUT_FILENO)) (fds w)
       \<and> (fork_ret w (nfork w) = None \<longrightarrow>
            fst (execute_command cmd args i out bgf w) = EXIT_FAILURE \<and>
            spawned (snd (execute_command cmd args i out bgf w)) = spawned w \<and>
            procs (snd (execute_command cmd args i out bgf w)) = procs w)
       \<and> (fork_ret w (nfork w) \<noteq> None \<longrightarrow>
            fst (execute_command cmd args i out bgf w) = EXIT_SUCCESS)"
proof -
  have g: "\<not> (cmd = None \<or> args = None \<or> the args = [])" using c a by simp
  obtain p w1 where f: "fork i out (the cmd) (the args) w = (p, w1)" by (rule prod.exhaust)
  note u = execute_command_unfold [OF g f]
  have rm: "\<And>x xs. removeAll x xs = filter (\<lambda>y. y \<noteq> x) xs"
    by (simp add: removeAll_filter_not_eq) (metis)
  show ?thesis
  proof (cases "fork_ret w (nfork w)")
    case None
    with f have p: "p < 0" and w1: "w1 = w\<lparr>nfork := Suc (nfork w)\<rparr>"
      by (auto simp: fork_def)
    show ?thesis
      unfolding u if_P [OF p] Let_def w1 using None
      by (auto simp: close_fd_def eprint_def rm intro: filter_cong)
  next
    case (Some k)
    with f have p: "\<not> p < 0" and w1: "fds w1 = fds w" by (auto simp: fork_def Let_def)
    let ?w2 = "if i \<noteq> STDIN_FILENO then close_fd i w1 else w1"
    let ?w3 = "if out \<noteq> STDOUT_FILENO then close_fd out ?w2 else ?w2"
    have f3: "fds ?w3 = filter (\<lambda>fd. \<not> (fd = i \<and> i \<noteq> STDIN_FILENO) \<and>
                  \<not> (fd = out \<and> out \<noteq> STDOUT_FILENO)) (fds w)"
      using w1 by (auto simp: rm intro: filter_cong)
    have "fds (snd (execute_command cmd args i out bgf w)) = fds ?w3"
      unfolding u if_not_P [OF p] Let_def snd_conv by simp
    with f3 Some show ?thesis
      unfolding u if_not_P [OF p] Let_def by simp
  qed
qed

text \<open>Descriptors 3 and 4 are closed; descriptor 1 as the output is kept.\<close>

theorem execute_command_closes_unless_default_witness:
  "fds (snd (execute_command (Some ''ls'') (Some [''ls'']) 3 4 False
        (w_idle\<lparr>fds := [0, 1, 2, 3, 4]\<rparr>))) = [0, 1, 2] \<and>
   fst (execute_command (Some ''ls'') (Some [''ls'']) 3 4 False
        (w_idle\<lparr>fds := [0, 1, 2, 3, 4]\<rparr>)) = EXIT_SUCCESS \<and>
   fst (execute_command (Some ''ls'') (Some [''ls'']) 3 1 False
        (w_idle\<lparr>fds := [0, 1, 2, 3], fork_ret := (\<lambda>_. None)\<rparr>)) = EXIT_FAILURE \<and>
   fds (snd (execute_command (Some ''ls'') (Some [''ls'']) 3 1 False
        (w_idle\<lparr>fds := [0, 1, 2, 3], fork_ret := (\<lambda>_. None)\<rparr>))) = [0, 1, 2]"
  using execute_command_closes_unless_default [of "Some ''ls''" "''ls''" "Some [''ls'']" "''ls''" "[]"
          3 4 False "w_idle\<lparr>fds := [0, 1, 2, 3, 4]\<rparr>"]
        execute_command_closes_unless_default [of "Some ''ls''" "''ls''" "Some [''ls'']" "''ls''" "[]"
          3 1 False "w_idle\<lparr>fds := [0, 1, 2, 3], fork_ret := (\<lambda>_. None)\<rparr>"]
  by (simp add: w_idle_def STDIN_FILENO_def STDOUT_FILENO_def)

subsection \<open>The builtin\<close>

text \<open>
  Claim C10. When the command line is the one stage whose first argument is
  \<^verbatim>\<open>jobs\<close>, \<^verbatim>\<open>execute\<close> returns success with the world that \<^verbatim>\<open>print_jobs\<close> leaves
  after the reap, whatever the two paths and the background flag are: no descriptor is
  opened or closed, no file is opened, no child is forked or waited for. What it appends
  to the shell's standard output is the listing of the table as it is on return: one line
  \<^verbatim>\<open>[<pid>] Running  <text>\<close> for each active slot, in slot order, or the one line
  \<^verbatim>\<open>(no background jobs)\<close>. For every other command line the shell's standard output
  stays as it was, so the listing is printed in that case only. In a pipeline of two or
  more stages for which \<^verbatim>\<open>execute\<close> returns success, each stage, \<^verbatim>\<open>jobs\<close> too, is a
  child that executes the stage's first argument with the stage's arguments.
\<close>

theorem jobs_builtin_only_as_single_stage:
  "(l_seq l = [argv] \<and> argv \<noteq> [] \<and> argv ! 0 = ''jobs'' \<longrightarrow>
      execute (Some l) w = (EXIT_SUCCESS, print_jobs (reap_finished_jobs w)) \<and>
      fds (snd (execute (Some l) w)) = fds w \<and>
      open_calls (snd (execute (Some l) w)) = open_calls w \<and>
      spawned (snd (execute (Some l) w)) = spawned w \<and>
      waited (snd (execute (Some l) w)) = waited w \<and>
      (length (g_jobs w) = MAX_JOBS \<longrightarrow>
         stdout (snd (execute (Some l) w)) = stdout w @
           (if filter job_active (g_jobs (snd (execute (Some l) w))) = []
            then [''(no background jobs)'' @ nl]
            else map (\<lambda>j. ''['' @ string_of_int (job_pid j) @ ''] Running  '' @
                           (if job_cmdline j = [] then ''(unknown)'' else job_cmdline j) @ nl)
                     (filter job_active (g_jobs (snd (execute (Some l) w)))))))
   \<and> (\<not> (\<exists>a. l_seq l = [a] \<and> a \<noteq> [] \<and> a ! 0 = ''jobs'') \<longrightarrow>
        stdout (snd (execute (Some l) w)) = stdout w)
   \<and> (2 \<le> length (l_seq l) \<and> fst (execute (Some l) w) = EXIT_SUCCESS \<longrightarrow>
        (\<exists>cs. spawned (snd (execute (Some l) w)) = spawned w @ cs \<and>
              map c_argv cs = l_seq l \<and> map c_prog cs = map (\<lambda>a. a ! 0) (l_seq l)))"
proof (intro conjI impI)
  let ?r = "reap_finished_jobs w"
  assume j: "l_seq l = [argv] \<and> argv \<noteq> [] \<and> argv ! 0 = ''jobs''"
  then show e: "execute (Some l) w = (EXIT_SUCCESS, print_jobs ?r)"
    by (simp add: execute_def execute_single_def Let_def)
  from print_jobs_only_stdout [of ?r] obtain out where
    p: "print_jobs ?r = (reap_finished_jobs ?r)\<lparr>stdout := out\<rparr>" by blast
  from reap_finished_jobs_env [of w] reap_finished_jobs_env [of ?r]
  have env: "fds (reap_finished_jobs ?r) = fds w" "open_calls (reap_finished_jobs ?r) = open_calls w"
    "spawned (reap_finished_jobs ?r) = spawned w" "waited (reap_finished_jobs ?r) = waited w"
    "stdout ?r = stdout w" "length (g_jobs ?r) = length (g_jobs w)"
    by (simp_all add: same_env_def)
  show "fds (snd (execute (Some l) w)) = fds w" unfolding e snd_conv p by (simp add: env)
  show "open_calls (snd (execute (Some l) w)) = open_calls w" unfolding e snd_conv p by (simp add: env)
  show "spawned (snd (execute (Some l) w)) = spawned w" unfolding e snd_conv p by (simp add: env)
  show "waited (snd (execute (Some l) w)) = waited w" unfolding e snd_conv p by (simp add: env)
  assume "length (g_jobs w) = MAX_JOBS"
  with env(6) have "length (g_jobs ?r) = MAX_JOBS" by simp
  note q = print_jobs_eq [OF this]
  have g: "g_jobs (print_jobs ?r) = g_jobs (reap_finished_jobs ?r)" by (subst q) simp
  have s: "stdout (print_jobs ?r) = stdout w @
      (if filter job_active (g_jobs (reap_finished_jobs ?r)) = []
       then [''(no background jobs)'' @ nl]
       else map job_line (filter job_active (g_jobs (reap_finished_jobs ?r))))"
    by (subst q) (simp add: env(5))
  show "stdout (snd (execute (Some l) w)) = stdout w @
           (if filter job_active (g_jobs (snd (execute (Some l) w))) = []
            then [''(no background jobs)'' @ nl]
            else map (\<lambda>j. ''['' @ string_of_int (job_pid j) @ ''] Running  '' @
                           (if job_cmdline j = [] then ''(unknown)'' else job_cmdline j) @ nl)
                     (filter job_active (g_jobs (snd (execute (Some l) w)))))"
    unfolding e snd_conv g s job_line_eq ..
next
  assume "\<not> (\<exists>a. l_seq l = [a] \<and> a \<noteq> [] \<and> a ! 0 = ''jobs'')"
  then show "stdout (snd (execute (Some l) w)) = stdout w" by (rule execute_stdout)
next
  let ?r = "reap_finished_jobs w"
  assume a: "2 \<le> length (l_seq l) \<and> fst (execute (Some l) w) = EXIT_SUCCESS"
  then have e: "execute (Some l) w = execute_pipeline l ?r" by (simp add: execute_pipeline_path)
  obtain c w' where p: "execute_pipeline l ?r = (c, w')" by (rule prod.exhaust)
  with a e have p': "execute_pipeline l ?r = (EXIT_SUCCESS, w')" by simp
  from a have "0 < length (l_seq l)" by auto
  from execute_pipeline_success [OF p' this]
  obtain cs where cs: "spawned w' = spawned ?r @ cs" "map c_argv cs = l_seq l"
    "map c_prog cs = map (\<lambda>a. a ! 0) (l_seq l)" by blast
  from reap_finished_jobs_env [of w] have "spawned ?r = spawned w" by (simp add: same_env_def)
  with cs show "\<exists>cs. spawned (snd (execute (Some l) w)) = spawned w @ cs \<and>
              map c_argv cs = l_seq l \<and> map c_prog cs = map (\<lambda>a. a ! 0) (l_seq l)"
    unfolding e p' snd_conv by (intro exI [of _ cs]) simp
qed

text \<open>
  The builtin with two redirections and the background flag in \<open>w_live\<close>, where process
  5 has terminated and processes 6 and 8 run: two lines are printed, no file is opened
  and no child is forked. And \<^verbatim>\<open>jobs | wc\<close>: nothing is printed by the shell, and
  \<^verbatim>\<open>jobs\<close> is the program of the first child.
\<close>

theorem jobs_builtin_only_as_single_stage_witness:
  "fst (execute (Some l_jobs) w_live) = EXIT_SUCCESS \<and>
   stdout (snd (execute (Some l_jobs) w_live)) =
     [''[6] Running  (unknown)'' @ nl, ''[8] Running  make &'' @ nl] \<and>
   open_calls (snd (execute (Some l_jobs) w_live)) = [] \<and>
   spawned (snd (execute (Some l_jobs) w_live)) = [] \<and>
   fds (snd (execute (Some l_jobs) w_live)) = [0, 1, 2] \<and>
   stdout (snd (execute (Some l_jobs_pipe) w_live)) = [] \<and>
   (\<exists>cs. spawned (snd (execute (Some l_jobs_pipe) w_live)) = spawned w_live @ cs \<and>
         map c_argv cs = [[''jobs''], [''wc'']] \<and> map c_prog cs = [''jobs'', ''wc''])"
proof -
  have j: "l_seq l_jobs = [[''jobs'']] \<and> [''jobs''] \<noteq> [] \<and> [''jobs''] ! 0 = ''jobs''"
    by (simp add: l_jobs_def)
  have nj: "\<not> (\<exists>a. l_seq l_jobs_pipe = [a] \<and> a \<noteq> [] \<and> a ! 0 = ''jobs'')"
    by (simp add: l_jobs_pipe_def)
  have ok: "2 \<le> length (l_seq l_jobs_pipe) \<and> fst (execute (Some l_jobs_pipe) w_live) = EXIT_SUCCESS"
    by code_simp
  have ls: "l_seq l_jobs_pipe = [[''jobs''], [''wc'']]" by (simp add: l_jobs_pipe_def)
  have wi: "open_calls w_live = []" "spawned w_live = []" "stdout w_live = []"
    "fds w_live = [0, 1, 2]" "length (g_jobs w_live) = MAX_JOBS"
    by (simp_all add: w_live_def w_idle_def MAX_JOBS_def)
  have act: "filter job_active (g_jobs (snd (execute (Some l_jobs) w_live))) =
      [\<lparr>job_pid = 6, job_active = True, job_cmdline = ''''\<rparr>,
       \<lparr>job_pid = 8, job_active = True, job_cmdline = ''make &''\<rparr>]"
    by code_simp
  have s: "string_of_int 6 = ''6''" "string_of_int 8 = ''8''"
    by code_simp code_simp
  from jobs_builtin_only_as_single_stage [of l_jobs "[''jobs'']" w_live] j wi(5)
  have a: "execute (Some l_jobs) w_live = (EXIT_SUCCESS, print_jobs (reap_finished_jobs w_live))"
    "open_calls (snd (execute (Some l_jobs) w_live)) = open_calls w_live"
    "spawned (snd (execute (Some l_jobs) w_live)) = spawned w_live"
    "fds (snd (execute (Some l_jobs) w_live)) = fds w_live"
    "stdout (snd (execute (Some l_jobs) w_live)) = stdout w_live @
           (if filter job_active (g_jobs (snd (execute (Some l_jobs) w_live))) = []
            then [''(no background jobs)'' @ nl]
            else map (\<lambda>j. ''['' @ string_of_int (job_pid j) @ ''] Running  '' @
                           (if job_cmdline j = [] then ''(unknown)'' else job_cmdline j) @ nl)
                     (filter job_active (g_jobs (snd (execute (Some l_jobs) w_live)))))"
    by blast+
  from a(1) have a1: "fst (execute (Some l_jobs) w_live) = EXIT_SUCCESS" by simp
  from a(5) have a5: "stdout (snd (execute (Some l_jobs) w_live)) =
     [''[6] Running  (unknown)'' @ nl, ''[8] Running  make &'' @ nl]"
    unfolding act wi by (simp add: s)
  from jobs_builtin_only_as_single_stage [of l_jobs_pipe "[]" w_live] nj ok
  have b: "stdout (snd (execute (Some l_jobs_pipe) w_live)) = stdout w_live"
    "\<exists>cs. spawned (snd (execute (Some l_jobs_pipe) w_live)) = spawned w_live @ cs \<and>
          map c_argv cs = l_seq l_jobs_pipe \<and> map c_prog cs = map (\<lambda>a. a ! 0) (l_seq l_jobs_pipe)"
    by blast+
  have ev: "stdout (snd (execute (Some l_jobs) w_live)) =
     [''[6] Running  (unknown)'' @ nl, ''[8] Running  make &'' @ nl]"
    by code_simp
  from a1 a5 ev a(2,3,4) b show ?thesis unfolding ls wi by simp
qed

end
